theory Spec2Isabelle
  imports Main "HOL-Library.Multiset"
begin

section \<open>The capture job controller (background_caching_job.py)\<close>

subsection \<open>The execution engine's job handle\<close>

text \<open>
  Modelled from the spec: the enumeration \<open>PipelineState\<close> and its helper
  \<open>PipelineState.is_terminal\<close> live in apache_beam/runners/runner.py, which is not among
  the sources. Section 4.5 of the specification fixes RUNNING and CANCELLING as
  non-terminal and DONE and CANCELLED as terminal; the further constructors stand for the
  "etc." of section 6 and follow the Beam runner interface.
\<close>

datatype PipelineState =
  UNKNOWN | STARTING | STOPPED | RUNNING | DONE | FAILED | CANCELLED | UPDATED
  | DRAINING | DRAINED | PENDING | CANCELLING | UNRECOGNIZED

fun is_terminal :: "PipelineState \<Rightarrow> bool" where
  "is_terminal STOPPED = True"
| "is_terminal DONE = True"
| "is_terminal FAILED = True"
| "is_terminal CANCELLED = True"
| "is_terminal UPDATED = True"
| "is_terminal DRAINED = True"
| "is_terminal _ = False"

text \<open>
  The exceptions a call of \<open>pipeline_result.cancel()\<close> can raise: the one the controller
  handles, and any other.
\<close>

datatype exn = NotImplementedError | OtherError

text \<open>
  The engine is an external collaborator: its \<open>cancel()\<close> is a parameter of the model,
  a function from the state of the job at the call to the exception it raises (if any)
  and the state the handle shows afterwards.
\<close>

type_synonym engine = "PipelineState \<Rightarrow> exn option \<times> PipelineState"

record pipeline_result =
  state :: PipelineState
  cancel_requests :: nat \<comment> \<open>how often \<open>cancel()\<close> was invoked on the handle\<close>

definition pipeline_result_cancel :: "engine \<Rightarrow> pipeline_result \<Rightarrow> exn option \<times> pipeline_result" where
  "pipeline_result_cancel eng r =
     (case eng (state r) of
        (e, s) \<Rightarrow> (e, r\<lparr>state := s, cancel_requests := Suc (cancel_requests r)\<rparr>))"

subsection \<open>BackgroundCachingJob\<close>

text \<open>
  A \<open>threading.Timer\<close> is pending (alive) from \<open>start()\<close> until it fires or is
  cancelled; the condition checker is a thread that polls until its loop breaks.
\<close>

datatype timer_state = TimerNotStarted | TimerPending | TimerFired | TimerCancelled

datatype thread_state = ThreadNotStarted | ThreadRunning | ThreadEnded

record BackgroundCachingJob =
  job_pipeline_result :: pipeline_result
  job_timer :: timer_state
  job_condition_checker :: thread_state
  timer_triggered :: bool
  condition_checker_triggered :: bool
  job_logged :: "string list" \<comment> \<open>records the job's methods sent to the module logger\<close>

definition timer_is_alive :: "timer_state \<Rightarrow> bool" where
  "timer_is_alive t = (t = TimerPending)"

definition timer_cancel :: "timer_state \<Rightarrow> timer_state" where
  "timer_cancel t = (if t = TimerPending then TimerCancelled else t)"

text \<open>
  \<open>__init__\<close> in the order of the source. Its first part (lines 69-76) stores the
  handle, creates the timer and the checker thread and, unless told otherwise, starts
  both; only its last two statements (lines 77-78) assign the two flags. Between the
  two parts the watchers already run. Until they are assigned the flags do not exist;
  the watchers only write them and \<open>is_done\<close> cannot be called before the constructor
  returns, so the value shown for them here is never read.
\<close>

definition BackgroundCachingJob_init_start :: "pipeline_result \<Rightarrow> bool \<Rightarrow> BackgroundCachingJob" where
  "BackgroundCachingJob_init_start r start_limit_checkers =
     \<lparr> job_pipeline_result = r,
       job_timer = (if start_limit_checkers then TimerPending else TimerNotStarted),
       job_condition_checker = (if start_limit_checkers then ThreadRunning else ThreadNotStarted),
       timer_triggered = False,
       condition_checker_triggered = False,
       job_logged = [] \<rparr>"

definition BackgroundCachingJob_init_flags :: "BackgroundCachingJob \<Rightarrow> BackgroundCachingJob" where
  "BackgroundCachingJob_init_flags j =
     j\<lparr>timer_triggered := False, condition_checker_triggered := False\<rparr>"

text \<open>The constructor when no watcher gets to run between its two parts.\<close>

definition BackgroundCachingJob_init :: "pipeline_result \<Rightarrow> bool \<Rightarrow> BackgroundCachingJob" where
  "BackgroundCachingJob_init r start_limit_checkers =
     BackgroundCachingJob_init_flags (BackgroundCachingJob_init_start r start_limit_checkers)"

text \<open>
  \<open>is_done\<close>: the state is DONE, or a watcher's flag is set and the state is one of
  \<open>(CANCELLED, CANCELLING)\<close>.
\<close>

definition is_done :: "BackgroundCachingJob \<Rightarrow> bool" where
  "is_done j =
     (state (job_pipeline_result j) = DONE \<or>
      ((timer_triggered j \<or> condition_checker_triggered j) \<and>
       state (job_pipeline_result j) \<in> set [CANCELLED, CANCELLING]))"

definition is_running :: "BackgroundCachingJob \<Rightarrow> bool" where
  "is_running j = (state (job_pipeline_result j) = RUNNING)"

text \<open>
  \<open>_cancel\<close>: sets the timer flag, then asks the engine to cancel unless the state is
  terminal. A NotImplementedError is handled by \<open>pass\<close>; any other exception leaves the
  method (the first component of the result).
\<close>

definition cancel_internal :: "engine \<Rightarrow> BackgroundCachingJob \<Rightarrow> exn option \<times> BackgroundCachingJob" where
  "cancel_internal eng j =
     (let j1 = j\<lparr>timer_triggered := True\<rparr> in
      if \<not> is_terminal (state (job_pipeline_result j1)) then
        (case pipeline_result_cancel eng (job_pipeline_result j1) of
           (None, r) \<Rightarrow> (None, j1\<lparr>job_pipeline_result := r\<rparr>)
         | (Some NotImplementedError, r) \<Rightarrow> (None, j1\<lparr>job_pipeline_result := r\<rparr>)
         | (Some OtherError, r) \<Rightarrow> (Some OtherError, j1\<lparr>job_pipeline_result := r\<rparr>))
      else (None, j1))"

text \<open>
  \<open>cancel\<close>: calls \<open>_cancel\<close>; when that returns, it marks the timer as not triggered
  and cancels the timer if it is alive. An exception of \<open>_cancel\<close> ends the method there.
\<close>

definition cancel :: "engine \<Rightarrow> BackgroundCachingJob \<Rightarrow> exn option \<times> BackgroundCachingJob" where
  "cancel eng j =
     (case cancel_internal eng j of
        (Some e, j1) \<Rightarrow> (Some e, j1)
      | (None, j1) \<Rightarrow>
          (let j2 = j1\<lparr>timer_triggered := False\<rparr> in
           (None, if timer_is_alive (job_timer j2)
                  then j2\<lparr>job_timer := timer_cancel (job_timer j2)\<rparr> else j2)))"

text \<open>
  \<open>_should_end_condition_checker\<close>, with the answer of
  \<open>is_capture_size_reached()\<close> as an argument. The result is the raised exception (if
  any), the returned boolean and the job.
\<close>

definition should_end_condition_checker ::
  "engine \<Rightarrow> bool \<Rightarrow> BackgroundCachingJob \<Rightarrow> exn option \<times> bool \<times> BackgroundCachingJob" where
  "should_end_condition_checker eng size_reached j =
     (if size_reached then
        (case cancel eng (j\<lparr>condition_checker_triggered := True\<rparr>) of
           (e, j1) \<Rightarrow> (e, True, j1))
      else if \<not> timer_is_alive (job_timer j) then (None, True, j)
      else (None, False, j))"

subsection \<open>The job under its watchers, the caller and the engine\<close>

text \<open>
  What can happen to a job once its watchers are started, one event at a time: the
  caller invokes \<open>cancel()\<close>; the pending timer fires and runs \<open>_cancel\<close>; the running
  checker thread polls once (the loop body of
  \<open>_background_caching_job_condition_checker\<close>, which polls before it first sleeps, the
  thread ending when the poll returns True or raises); the engine moves the job to
  another state. Each method call is one step.
\<close>

datatype job_event =
  ExternalCancel | TimerFires | CheckerPolls bool | EngineMoves PipelineState

fun job_step :: "engine \<Rightarrow> job_event \<Rightarrow> BackgroundCachingJob \<Rightarrow> BackgroundCachingJob" where
  "job_step eng ExternalCancel j = snd (cancel eng j)"
| "job_step eng TimerFires j =
     (if job_timer j = TimerPending
      then snd (cancel_internal eng (j\<lparr>job_timer := TimerFired\<rparr>)) else j)"
| "job_step eng (CheckerPolls size_reached) j =
     (if job_condition_checker j = ThreadRunning then
        (case should_end_condition_checker eng size_reached j of
           (e, ended, j1) \<Rightarrow>
             if ended \<or> e \<noteq> None then j1\<lparr>job_condition_checker := ThreadEnded\<rparr> else j1)
      else j)"
| "job_step eng (EngineMoves s) j =
     j\<lparr>job_pipeline_result := (job_pipeline_result j)\<lparr>state := s\<rparr>\<rparr>"

fun job_run :: "engine \<Rightarrow> job_event list \<Rightarrow> BackgroundCachingJob \<Rightarrow> BackgroundCachingJob" where
  "job_run eng [] j = j"
| "job_run eng (ev # evs) j = job_run eng evs (job_step eng ev j)"

text \<open>
  The construction of a job as the threads see it: the first part of \<open>__init__\<close>, the
  events \<open>early\<close> of the watchers and the engine that happen before the constructor
  reaches line 77, then the assignment of the flags. With no early event this is
  \<open>BackgroundCachingJob_init\<close>.
\<close>

definition construct ::
  "engine \<Rightarrow> pipeline_result \<Rightarrow> bool \<Rightarrow> job_event list \<Rightarrow> BackgroundCachingJob" where
  "construct eng r start_limit_checkers early =
     BackgroundCachingJob_init_flags
       (job_run eng early (BackgroundCachingJob_init_start r start_limit_checkers))"

subsection \<open>Sample jobs\<close>

text \<open>
  An engine that does not implement cancellation, a job that is DONE and a job that is
  RUNNING, both with their watchers started.
\<close>

definition engine_without_cancel :: engine where
  "engine_without_cancel s = (Some NotImplementedError, s)"

definition done_job :: BackgroundCachingJob where
  "done_job = BackgroundCachingJob_init \<lparr>state = DONE, cancel_requests = 0\<rparr> True"

definition running_job :: BackgroundCachingJob where
  "running_job = BackgroundCachingJob_init \<lparr>state = RUNNING, cancel_requests = 0\<rparr> True"

text \<open>An engine whose \<open>cancel()\<close> puts the job into CANCELLING.\<close>

definition cancelling_engine :: engine where
  "cancelling_engine s = (None, CANCELLING)"

text \<open>
  A job on a running pipeline whose checker thread polls, and finds the size limit
  reached, before the constructor has assigned the flags.
\<close>

definition job_polled_in_constructor :: BackgroundCachingJob where
  "job_polled_in_constructor =
     construct cancelling_engine \<lparr>state = RUNNING, cancel_requests = 0\<rparr> True [CheckerPolls True]"

text \<open>
  An engine whose \<open>cancel()\<close> puts the job into CANCELLING and then fails with an
  exception other than NotImplementedError.
\<close>

definition failing_engine :: engine where
  "failing_engine s = (Some OtherError, CANCELLING)"

section \<open>The source-signature tracker and the needed-capture decision\<close>

subsection \<open>The user pipeline and the interactive environment\<close>

text \<open>
  Modelled from the spec: the source inspector (\<open>pipeline_instrument.unbounded_sources\<close>
  and \<open>has_unbounded_sources\<close>) is not among the sources. Section 6 has it return, for a
  pipeline, its capturable (unbounded) sources as description objects, so a pipeline is
  its identity and the list of those sources; it has capturable sources when the list is
  not empty. How a source is serialised to a string (\<open>str(transform.to_runner_api(context))\<close>)
  is a parameter \<open>to_str\<close> of the functions below.
\<close>

record 'src user_pipeline =
  pipeline_id :: nat
  unbounded_sources :: "'src list"

definition has_unbounded_sources :: "'src user_pipeline \<Rightarrow> bool" where
  "has_unbounded_sources p = (unbounded_sources p \<noteq> [])"

text \<open>
  Modelled from the spec: the interactive environment (interactive_environment.py) is not
  among the sources. Section 9 describes it as a registry from a pipeline's identity to
  its capture job and source signature, together with the cache; \<open>cleanup()\<close> "clears all
  cached data belonging to the environment" (section 4.4). The recorded signature of a
  pipeline seen for the first time is the empty set, as the comment in
  \<open>is_source_to_cache_changed\<close> says.
\<close>

record ('k, 'v) environment =
  env_background_caching_jobs :: "nat \<rightharpoonup> BackgroundCachingJob"
  env_cached_source_signature :: "nat \<rightharpoonup> string set"
  env_cache :: "'k \<rightharpoonup> 'v"
  env_cache_manager_is_streaming :: bool
  env_logged :: "string list" \<comment> \<open>records sent to the module logger\<close>

definition get_background_caching_job ::
  "('k, 'v) environment \<Rightarrow> 'src user_pipeline \<Rightarrow> BackgroundCachingJob option" where
  "get_background_caching_job env p = env_background_caching_jobs env (pipeline_id p)"

definition get_cached_source_signature ::
  "('k, 'v) environment \<Rightarrow> 'src user_pipeline \<Rightarrow> string set" where
  "get_cached_source_signature env p =
     (case env_cached_source_signature env (pipeline_id p) of None \<Rightarrow> {} | Some sg \<Rightarrow> sg)"

definition set_cached_source_signature ::
  "('k, 'v) environment \<Rightarrow> 'src user_pipeline \<Rightarrow> string set \<Rightarrow> ('k, 'v) environment" where
  "set_cached_source_signature env p sg =
     env\<lparr>env_cached_source_signature := (env_cached_source_signature env)(pipeline_id p \<mapsto> sg)\<rparr>"

definition cleanup :: "('k, 'v) environment \<Rightarrow> ('k, 'v) environment" where
  "cleanup env = env\<lparr>env_cache := Map.empty\<rparr>"

definition info :: "string \<Rightarrow> ('k, 'v) environment \<Rightarrow> ('k, 'v) environment" where
  "info msg env = env\<lparr>env_logged := env_logged env @ [msg]\<rparr>"

subsection \<open>The functions of background_caching_job.py\<close>

text \<open>
  \<open>extract_source_to_cache_signature\<close>: the set of the strings of the pipeline's unbounded
  source transforms.
\<close>

definition extract_source_to_cache_signature ::
  "('src \<Rightarrow> string) \<Rightarrow> 'src user_pipeline \<Rightarrow> string set" where
  "extract_source_to_cache_signature to_str p = to_str ` set (unbounded_sources p)"

text \<open>
  \<open>is_source_to_cache_changed\<close>: the result and the environment afterwards. The two log
  records are the messages of the source up to the formatted capture options.
\<close>

definition is_source_to_cache_changed ::
  "('src \<Rightarrow> string) \<Rightarrow> ('k, 'v) environment \<Rightarrow> 'src user_pipeline \<Rightarrow> bool \<Rightarrow>
   bool \<times> ('k, 'v) environment" where
  "is_source_to_cache_changed to_str env p update_cached_source_signature =
     (let recorded_signature = get_cached_source_signature env p;
          current_signature = extract_source_to_cache_signature to_str p;
          is_changed = \<not> current_signature \<subseteq> recorded_signature
      in if is_changed \<and> update_cached_source_signature then
           (let env1 =
                  (if recorded_signature = {}
                   then info ''Interactive Beam has detected you have unbounded sources in your pipeline.'' env
                   else info ''Interactive Beam has detected a new streaming source was added to the pipeline.'' env)
            in (is_changed, set_cached_source_signature (cleanup env1) p current_signature))
         else (is_changed, env))"

text \<open>
  \<open>has_source_to_cache\<close>: whether the pipeline has unbounded sources; when it has, a
  cache manager that is not yet a streaming cache is wrapped into one, over the same
  cache directory.
\<close>

definition has_source_to_cache ::
  "('k, 'v) environment \<Rightarrow> 'src user_pipeline \<Rightarrow> bool \<times> ('k, 'v) environment" where
  "has_source_to_cache env p =
     (let has_cache = has_unbounded_sources p in
      if has_cache \<and> \<not> env_cache_manager_is_streaming env
      then (has_cache, env\<lparr>env_cache_manager_is_streaming := True\<rparr>)
      else (has_cache, env))"

text \<open>\<open>is_background_caching_job_needed\<close>: the decision and the environment afterwards.\<close>

definition is_background_caching_job_needed ::
  "('src \<Rightarrow> string) \<Rightarrow> ('k, 'v) environment \<Rightarrow> 'src user_pipeline \<Rightarrow>
   bool \<times> ('k, 'v) environment" where
  "is_background_caching_job_needed to_str env p =
     (let job = get_background_caching_job env p in
      case has_source_to_cache env p of (need_cache, env1) \<Rightarrow>
      case is_source_to_cache_changed to_str env1 p True of (cache_changed, env2) \<Rightarrow>
        (need_cache \<and>
         (case job of
            None \<Rightarrow> True
          | Some j \<Rightarrow> \<not> (is_done j \<or> is_running j) \<or> cache_changed),
         env2))"

subsection \<open>Sample pipelines and environments\<close>

text \<open>
  A fresh environment with one cached entry, and three versions of the pipeline with
  identity 1: reading from source S1, from no source, and from S1 and S2.
\<close>

definition fresh_env :: "(string, string) environment" where
  "fresh_env =
     \<lparr> env_background_caching_jobs = Map.empty,
       env_cached_source_signature = Map.empty,
       env_cache = [''full'' \<mapsto> ''data''],
       env_cache_manager_is_streaming = False,
       env_logged = [] \<rparr>"

definition pipeline_S1 :: "string user_pipeline" where
  "pipeline_S1 = \<lparr>pipeline_id = 1, unbounded_sources = [''S1'']\<rparr>"

definition pipeline_none :: "string user_pipeline" where
  "pipeline_none = \<lparr>pipeline_id = 1, unbounded_sources = []\<rparr>"

definition pipeline_S1_S2 :: "string user_pipeline" where
  "pipeline_S1_S2 = \<lparr>pipeline_id = 1, unbounded_sources = [''S1'', ''S2'']\<rparr>"

text \<open>The environment after the signature of \<open>pipeline_S1\<close> was recorded.\<close>

definition env_S1 :: "(string, string) environment" where
  "env_S1 = snd (is_source_to_cache_changed (\<lambda>s. s) fresh_env pipeline_S1 True)"

text \<open>A fresh environment that tracks a running capture job for pipeline 1.\<close>

definition env_running :: "(string, string) environment" where
  "env_running = fresh_env\<lparr>env_background_caching_jobs := [1 \<mapsto> running_job]\<rparr>"

section \<open>Events of a cached stream\<close>

text \<open>
  \<open>TestStreamPayload.Event\<close> as the sources build and inspect it: one of three variants.
  An element is its encoded bytes and its event time; all times are integers, in
  microseconds.
\<close>

datatype timestamped_element =
  TimestampedElement (encoded_element: string) (timestamp: int)

datatype event =
  AddElements "timestamped_element list" string
  | AdvanceWatermark int string
  | AdvanceProcessingTime int

section \<open>Materialising cached elements (pcoll_visualization.py)\<close>

text \<open>The outcome of a call that may raise.\<close>

datatype 'a attempt = Returns 'a | Raises

text \<open>
  What \<open>next(pcoll_list)\<close> yields: a \<open>TestStreamPayload.Event\<close>, or anything else (an
  element of a cache that is not a streaming cache).
\<close>

datatype 'raw cached_item = Event event | Plain 'raw

text \<open>
  The cache manager is an external collaborator, given by what its calls do for a cache
  key: \<open>exists('full', key)\<close>; \<open>read('full', key)\<close>, whose iterator is the list of the
  outcomes of the successive calls of \<open>next\<close> up to StopIteration; the decoding of one
  encoded element (\<open>load_pcoder\<close>, \<open>decode\<close> and the conversion to a WindowedValue,
  any of which may raise); and the conversion of a plain element to a WindowedValue.
\<close>

record ('raw, 'wv) cache_manager =
  cm_exists :: "string \<Rightarrow> bool attempt"
  cm_read :: "string \<Rightarrow> 'raw cached_item attempt list attempt"
  cm_decode :: "string \<Rightarrow> string \<Rightarrow> 'wv attempt"
  cm_windowed :: "'raw \<Rightarrow> 'wv attempt"

text \<open>
  The loop \<open>for tv in el.element_event.elements\<close>: each decoded value is appended to the
  output; an exception leaves the loop with the output as it is.
\<close>

fun decode_elements :: "(string \<Rightarrow> 'wv attempt) \<Rightarrow> timestamped_element list \<Rightarrow> 'wv list \<Rightarrow> 'wv list" where
  "decode_elements dec [] output = output"
| "decode_elements dec (tv # tvs) output =
     (case dec (encoded_element tv) of
        Raises \<Rightarrow> output
      | Returns val \<Rightarrow> decode_elements dec tvs (output @ [val]))"

text \<open>
  The loop \<open>while True\<close> of \<open>_to_element_list\<close>, over the outcomes of \<open>next\<close>:
  StopIteration breaks; any other exception, of \<open>next\<close> or of the processing of the
  item, is logged and the loop goes on. The list is finite: the iterator is taken to
  reach StopIteration, as a cursor over stored data does.
\<close>

fun materialize ::
  "('raw, 'wv) cache_manager \<Rightarrow> string \<Rightarrow> 'raw cached_item attempt list \<Rightarrow> 'wv list \<Rightarrow> 'wv list" where
  "materialize cm key [] output = output"
| "materialize cm key (Raises # rest) output = materialize cm key rest output"
| "materialize cm key (Returns (Event (AdvanceWatermark w t)) # rest) output =
     materialize cm key rest output"
| "materialize cm key (Returns (Event (AdvanceProcessingTime d)) # rest) output =
     materialize cm key rest output"
| "materialize cm key (Returns (Event (AddElements tvs t)) # rest) output =
     materialize cm key rest (decode_elements (cm_decode cm key) tvs output)"
| "materialize cm key (Returns (Plain el) # rest) output =
     (case cm_windowed cm el of
        Raises \<Rightarrow> materialize cm key rest output
      | Returns val \<Rightarrow> materialize cm key rest (output @ [val]))"

definition to_element_list :: "('raw, 'wv) cache_manager \<Rightarrow> string \<Rightarrow> 'wv list" where
  "to_element_list cm cache_key =
     (let pcoll_list =
        (case cm_exists cm cache_key of
           Raises \<Rightarrow> []
         | Returns False \<Rightarrow> []
         | Returns True \<Rightarrow>
             (case cm_read cm cache_key of Raises \<Rightarrow> [] | Returns it \<Rightarrow> it))
      in materialize cm cache_key pcoll_list [])"

text \<open>The decoded payload of one event, when every element of it decodes.\<close>

fun is_add_elements :: "event \<Rightarrow> bool" where
  "is_add_elements (AddElements tvs t) = True"
| "is_add_elements _ = False"

fun decoded_value :: "'wv attempt \<Rightarrow> 'wv list" where
  "decoded_value (Returns v) = [v]"
| "decoded_value Raises = []"

fun payload :: "(string \<Rightarrow> 'wv attempt) \<Rightarrow> event \<Rightarrow> 'wv list" where
  "payload dec (AddElements tvs t) = concat (map (\<lambda>tv. decoded_value (dec (encoded_element tv))) tvs)"
| "payload dec _ = []"

fun decodes :: "(string \<Rightarrow> 'wv attempt) \<Rightarrow> event \<Rightarrow> bool" where
  "decodes dec (AddElements tvs t) = list_all (\<lambda>tv. dec (encoded_element tv) \<noteq> Raises) tvs"
| "decodes dec _ = True"

text \<open>
  A sample cache manager: the key \<open>k\<close> exists, elements decode to themselves except
  \<open>bad\<close>, which raises; the stream read for \<open>k\<close> is a parameter.
\<close>

definition sample_cache_manager :: "string cached_item attempt list \<Rightarrow> (string, string) cache_manager" where
  "sample_cache_manager its =
     \<lparr> cm_exists = (\<lambda>key. Returns (key = ''k'')),
       cm_read = (\<lambda>key. Returns its),
       cm_decode = (\<lambda>key enc. if enc = ''bad'' then Raises else Returns enc),
       cm_windowed = (\<lambda>el. if el = ''bad'' then Raises else Returns el) \<rparr>"

text \<open>Whether an outcome of \<open>next\<close> is a watermark or processing-time event.\<close>

fun is_time_event :: "'raw cached_item attempt \<Rightarrow> bool" where
  "is_time_event (Returns (Event (AdvanceWatermark w t))) = True"
| "is_time_event (Returns (Event (AdvanceProcessingTime d))) = True"
| "is_time_event _ = False"

text \<open>A stream whose only element event holds an element that fails to decode before one that decodes.\<close>

definition bad_then_good :: "string cached_item attempt list" where
  "bad_then_good =
     [Returns (Event (AddElements [TimestampedElement ''bad'' 0, TimestampedElement ''good'' 0] ''t''))]"

text \<open>A stream of two plain elements around a failing one, and a stream of all three kinds of event.\<close>

definition plain_stream :: "string cached_item attempt list" where
  "plain_stream = [Returns (Plain ''x''), Returns (Plain ''bad''), Returns (Plain ''y'')]"

definition mixed_events :: "event list" where
  "mixed_events =
     [AdvanceProcessingTime 5000000, AdvanceWatermark 0 ''t'',
      AddElements [TimestampedElement ''a'' 0, TimestampedElement ''b'' 0] ''t'']"

section \<open>The streaming replay cache\<close>

subsection \<open>Event logs and their storage\<close>

text \<open>
  Modelled from the spec: the module streaming_cache.py (\<open>StreamingCache\<close> with
  \<open>exists\<close>, \<open>write\<close>, \<open>read\<close>, \<open>read_multiple\<close> and \<open>sink\<close>) is not among the
  sources; only its test is. The definitions of this section follow sections 3, 4.1, 4.2
  and 4.3 of the specification. An event log is the ordered sequence of the events of
  one read group; the storage maps the labels of a group to its log, a missing log
  reading as the empty sequence.
\<close>

type_synonym storage = "string list \<rightharpoonup> event list"

definition exists_log :: "storage \<Rightarrow> string list \<Rightarrow> bool" where
  "exists_log st labels = (st labels \<noteq> None)"

definition open_cursor :: "storage \<Rightarrow> string list \<Rightarrow> event list" where
  "open_cursor st labels = (case st labels of None \<Rightarrow> [] | Some log \<Rightarrow> log)"

definition append_log :: "storage \<Rightarrow> string list \<Rightarrow> event list \<Rightarrow> storage" where
  "append_log st labels evs = st(labels \<mapsto> open_cursor st labels @ evs)"

subsection \<open>The clock-merging reader\<close>

text \<open>
  Modelled from the spec: "Processing-time position is reconstructed per-source by
  accumulating that source's own AdvanceProcessingTime deltas from its log."
  \<open>positions t log\<close> pairs every element and watermark event of the log with the value a
  clock started at \<open>t\<close> has when the event is reached.
\<close>

fun positions :: "int \<Rightarrow> event list \<Rightarrow> (int \<times> event) list" where
  "positions t [] = []"
| "positions t (AdvanceProcessingTime d # es) = positions (t + d) es"
| "positions t (e # es) = (t, e) # positions t es"

text \<open>
  Modelled from the spec: "At each merge step, pick the next not-yet-emitted event across
  all groups whose recorded processing-time position is smallest (ties broken by group
  read order)." There is one cursor per group, in the order the groups were listed;
  \<open>select\<close> is one merge step: it compares the events at the heads of the cursors, an
  event of a later group winning over one of an earlier group only when its position is
  strictly smaller, and returns the event picked and the cursors after it.
\<close>

fun select :: "(int \<times> event) list list \<Rightarrow> ((int \<times> event) \<times> (int \<times> event) list list) option" where
  "select [] = None"
| "select ([] # qs) =
     (case select qs of None \<Rightarrow> None | Some (y, qs') \<Rightarrow> Some (y, [] # qs'))"
| "select ((x # q) # qs) =
     (case select qs of
        None \<Rightarrow> Some (x, q # qs)
      | Some (y, qs') \<Rightarrow>
          if fst y < fst x then Some (y, (x # q) # qs') else Some (x, q # qs))"

function merge_cursors :: "(int \<times> event) list list \<Rightarrow> (int \<times> event) list" where
  "merge_cursors qs =
     (case select qs of None \<Rightarrow> [] | Some (x, qs') \<Rightarrow> x # merge_cursors qs')"
  by pat_completeness auto
termination
proof (relation "measure (\<lambda>qs. length (concat qs))")
  show "wf (measure (\<lambda>qs. length (concat qs)))"
    by simp
next
  fix qs :: "(int \<times> event) list list" and x qs' and sel
  assume "select qs = Some sel" and "(x, qs') = sel"
  then have "select qs = Some (x, qs')"
    by simp
  then have "length (concat qs) = Suc (length (concat qs'))"
    by (induction qs arbitrary: x qs' rule: select.induct)
      (auto split: option.splits if_splits)
  then show "(qs', qs) \<in> measure (\<lambda>qs. length (concat qs))"
    by simp
qed

declare merge_cursors.simps [simp del]

text \<open>
  Modelled from the spec: "Whenever advancing to the next chosen event requires the
  shared clock to move forward, emit exactly one AdvanceProcessingTime event carrying the
  delta between the shared clock's current value and the chosen event's processing-time
  position, BEFORE emitting that event." Events are passed on as they are.
\<close>

fun emit :: "int \<Rightarrow> (int \<times> event) list \<Rightarrow> event list" where
  "emit clock [] = []"
| "emit clock ((t, e) # rest) =
     (if clock < t then AdvanceProcessingTime (t - clock) # e # emit t rest
      else e # emit clock rest)"

text \<open>
  \<open>read_multiple\<close>: one cursor per group, the shared clock starting at 0 (the test
  \<open>test_multiple_readers\<close> expects the advance from 0 to the first event); \<open>read\<close> is the
  form for a single group of one tag.
\<close>

definition read_multiple :: "storage \<Rightarrow> string list list \<Rightarrow> event list" where
  "read_multiple st groups =
     emit 0 (merge_cursors (map (\<lambda>g. positions 0 (open_cursor st g)) groups))"

definition read :: "storage \<Rightarrow> string \<Rightarrow> event list" where
  "read st tag = read_multiple st [[tag]]"

text \<open>
  The invariant of section 3 on a recorded log, that processing time does not run
  backwards: no AdvanceProcessingTime of the log has a negative duration.
\<close>

fun advances_forward :: "event list \<Rightarrow> bool" where
  "advances_forward [] = True"
| "advances_forward (AdvanceProcessingTime d # es) = (0 \<le> d \<and> advances_forward es)"
| "advances_forward (e # es) = advances_forward es"

fun is_advance :: "event \<Rightarrow> bool" where
  "is_advance (AdvanceProcessingTime d) = True"
| "is_advance _ = False"

subsection \<open>The logs of \<open>test_multiple_readers\<close>\<close>

text \<open>
  The three logs the test writes, each change of \<open>processing_time_secs\<close> between two
  records being an AdvanceProcessingTime of the log (section 3); an encoded element is
  written as the text of the element.
\<close>

definition letters_log :: "event list" where
  "letters_log =
     [AdvanceProcessingTime 1000000, AdvanceWatermark 0 ''letters'',
      AddElements [TimestampedElement ''a'' 0] ''letters'',
      AdvanceProcessingTime 10000000, AdvanceWatermark 10000000 ''letters'',
      AddElements [TimestampedElement ''b'' 10000000] ''letters'']"

definition numbers_log :: "event list" where
  "numbers_log =
     [AdvanceProcessingTime 2000000, AddElements [TimestampedElement ''1'' 0] ''numbers'',
      AdvanceProcessingTime 1000000, AddElements [TimestampedElement ''2'' 0] ''numbers'',
      AdvanceProcessingTime 1000000, AddElements [TimestampedElement ''2'' 0] ''numbers'']"

definition late_log :: "event list" where
  "late_log =
     [AdvanceProcessingTime 101000000, AddElements [TimestampedElement ''late'' 0] ''late'']"

definition test_storage :: storage where
  "test_storage =
     [[''letters''] \<mapsto> letters_log, [''numbers''] \<mapsto> numbers_log, [''late''] \<mapsto> late_log]"

definition test_groups :: "string list list" where
  "test_groups = [[''letters''], [''numbers''], [''late'']]"

definition test_expected :: "event list" where
  "test_expected =
     [AdvanceProcessingTime 1000000,
      AdvanceWatermark 0 ''letters'',
      AddElements [TimestampedElement ''a'' 0] ''letters'',
      AdvanceProcessingTime 1000000,
      AddElements [TimestampedElement ''1'' 0] ''numbers'',
      AdvanceProcessingTime 1000000,
      AddElements [TimestampedElement ''2'' 0] ''numbers'',
      AdvanceProcessingTime 1000000,
      AddElements [TimestampedElement ''2'' 0] ''numbers'',
      AdvanceProcessingTime 7000000,
      AdvanceWatermark 10000000 ''letters'',
      AddElements [TimestampedElement ''b'' 10000000] ''letters'',
      AdvanceProcessingTime 90000000,
      AddElements [TimestampedElement ''late'' 0] ''late'']"

subsection \<open>The sink\<close>

text \<open>
  Modelled from the spec: the live, tagged event source that feeds the sink (a
  \<open>TestStream\<close> run by a pipeline) is not among the sources. Its events are those the
  test \<open>test_read_and_write\<close> builds, with times in seconds; the source keeps a processing
  clock and a watermark per tag, and hands every batch of elements to the sink together
  with the tag, the clock and the tag's watermark at that moment, in microseconds.
\<close>

datatype test_stream_event =
  Advance_watermark_to int string
  | Advance_processing_time int
  | Add_elements "(string \<times> int) list" string

record element_batch =
  batch_tag :: string
  batch_elements :: "timestamped_element list"
  batch_processing_time :: int
  batch_watermark :: "int option"

definition micros :: "int \<Rightarrow> int" where
  "micros secs = secs * 1000000"

fun live_batches :: "int \<Rightarrow> (string \<rightharpoonup> int) \<Rightarrow> test_stream_event list \<Rightarrow> element_batch list" where
  "live_batches clock wm [] = []"
| "live_batches clock wm (Advance_watermark_to w tag # evs) =
     live_batches clock (wm(tag \<mapsto> micros w)) evs"
| "live_batches clock wm (Advance_processing_time d # evs) =
     live_batches (clock + micros d) wm evs"
| "live_batches clock wm (Add_elements els tag # evs) =
     \<lparr> batch_tag = tag,
       batch_elements = map (\<lambda>(v, ts). TimestampedElement v (micros ts)) els,
       batch_processing_time = clock,
       batch_watermark = wm tag \<rparr> # live_batches clock wm evs"

text \<open>
  What a log has recorded so far: the processing time its AdvanceProcessingTime events
  add up to, and the watermark of its last AdvanceWatermark event.
\<close>

fun recorded_processing_time :: "event list \<Rightarrow> int" where
  "recorded_processing_time [] = 0"
| "recorded_processing_time (AdvanceProcessingTime d # es) = d + recorded_processing_time es"
| "recorded_processing_time (e # es) = recorded_processing_time es"

fun recorded_watermark :: "event list \<Rightarrow> int option" where
  "recorded_watermark [] = None"
| "recorded_watermark (AdvanceWatermark w t # es) =
     (case recorded_watermark es of None \<Rightarrow> Some w | Some w' \<Rightarrow> Some w')"
| "recorded_watermark (e # es) = recorded_watermark es"

text \<open>The elements of a batch, grouped by timestamp, in the order the timestamps first occur.\<close>

fun batch_by_timestamp :: "timestamped_element list \<Rightarrow> timestamped_element list list" where
  "batch_by_timestamp [] = []"
| "batch_by_timestamp (x # xs) =
     (x # filter (\<lambda>y. timestamp y = timestamp x) xs)
       # batch_by_timestamp (filter (\<lambda>y. timestamp y \<noteq> timestamp x) xs)"

text \<open>
  Modelled from the spec (section 4.2): "on each incoming element batch: (1) if the
  element's tag transitions to a new watermark or processing-time value not yet
  recorded, first emits the corresponding AdvanceWatermark/AdvanceProcessingTime event
  to that tag's log, then (2) emits an AddElements event batching all same-timestamp
  elements for that tag." The processing-time event goes before the watermark event, the
  order \<open>test_read_and_write\<close> expects.
\<close>

definition sink_batch :: "string list \<Rightarrow> storage \<Rightarrow> element_batch \<Rightarrow> storage" where
  "sink_batch tags st b =
     (if batch_tag b \<in> set tags then
        (let log = open_cursor st [batch_tag b];
             time_events =
               (if batch_processing_time b \<noteq> recorded_processing_time log
                then [AdvanceProcessingTime (batch_processing_time b - recorded_processing_time log)]
                else []);
             watermark_events =
               (case batch_watermark b of
                  None \<Rightarrow> []
                | Some w \<Rightarrow>
                    if recorded_watermark log \<noteq> Some w then [AdvanceWatermark w (batch_tag b)]
                    else []);
             element_events =
               map (\<lambda>els. AddElements els (batch_tag b)) (batch_by_timestamp (batch_elements b))
         in append_log st [batch_tag b] (time_events @ watermark_events @ element_events))
      else st)"

definition sink :: "string list \<Rightarrow> storage \<Rightarrow> element_batch list \<Rightarrow> storage" where
  "sink tags st batches = foldl (sink_batch tags) st batches"

text \<open>The capture sequence of \<open>test_read_and_write\<close>, for the tag \<open>records\<close>.\<close>

definition capture_sequence :: "test_stream_event list" where
  "capture_sequence =
     [Advance_watermark_to 0 ''records'',
      Advance_processing_time 5,
      Add_elements [(''a'', 0), (''b'', 0), (''c'', 0)] ''records'',
      Advance_watermark_to 10 ''records'',
      Advance_processing_time 1,
      Add_elements [(''1'', 15), (''2'', 15), (''3'', 15)] ''records'']"

section \<open>Properties of the capture job controller\<close>

lemma BackgroundCachingJob_init_record:
  "BackgroundCachingJob_init r start_limit_checkers =
     \<lparr> job_pipeline_result = r,
       job_timer = (if start_limit_checkers then TimerPending else TimerNotStarted),
       job_condition_checker = (if start_limit_checkers then ThreadRunning else ThreadNotStarted),
       timer_triggered = False,
       condition_checker_triggered = False,
       job_logged = [] \<rparr>"
  by (simp add: BackgroundCachingJob_init_def BackgroundCachingJob_init_flags_def
      BackgroundCachingJob_init_start_def)

lemma construct_without_early_events:
  "construct eng r start_limit_checkers [] = BackgroundCachingJob_init r start_limit_checkers"
  by (simp add: construct_def BackgroundCachingJob_init_def)


lemma cancel_internal_checker_flag:
  "condition_checker_triggered (snd (cancel_internal eng j)) = condition_checker_triggered j"
  by (simp add: cancel_internal_def pipeline_result_cancel_def Let_def
      split: prod.splits option.splits exn.splits)

lemma cancel_checker_flag:
  "condition_checker_triggered (snd (cancel eng j)) = condition_checker_triggered j"
proof -
  obtain e j1 where c: "cancel_internal eng j = (e, j1)"
    by (cases "cancel_internal eng j")
  have "condition_checker_triggered j1 = condition_checker_triggered j"
    using cancel_internal_checker_flag [of eng j] c by simp
  then show ?thesis
    by (cases e) (simp_all add: cancel_def c Let_def)
qed

lemma should_end_checker_flag:
  "condition_checker_triggered j \<or> b \<Longrightarrow>
   condition_checker_triggered (snd (snd (should_end_condition_checker eng b j)))"
proof (cases b)
  case True
  obtain e j1 where c: "cancel eng (j\<lparr>condition_checker_triggered := True\<rparr>) = (e, j1)"
    by (cases "cancel eng (j\<lparr>condition_checker_triggered := True\<rparr>)")
  have "condition_checker_triggered j1"
    using cancel_checker_flag [of eng "j\<lparr>condition_checker_triggered := True\<rparr>"] c by simp
  then show ?thesis using True c by (simp add: should_end_condition_checker_def)
next
  case False
  assume "condition_checker_triggered j \<or> b"
  then show ?thesis using False by (simp add: should_end_condition_checker_def)
qed

lemma job_step_checker_flag:
  "condition_checker_triggered j \<Longrightarrow> condition_checker_triggered (job_step eng ev j)"
proof (cases ev)
  case ExternalCancel
  assume "condition_checker_triggered j"
  then show ?thesis using ExternalCancel by (simp add: cancel_checker_flag)
next
  case TimerFires
  assume "condition_checker_triggered j"
  then show ?thesis using TimerFires by (simp add: cancel_internal_checker_flag)
next
  case (CheckerPolls b)
  assume a: "condition_checker_triggered j"
  obtain e ended j1 where c: "should_end_condition_checker eng b j = (e, ended, j1)"
    by (cases "should_end_condition_checker eng b j")
  have "condition_checker_triggered j1"
    using should_end_checker_flag [of j b eng] a c by simp
  then show ?thesis using a CheckerPolls c by simp
next
  case (EngineMoves s)
  assume "condition_checker_triggered j"
  then show ?thesis using EngineMoves by simp
qed

lemma job_run_checker_flag:
  "condition_checker_triggered j \<Longrightarrow> condition_checker_triggered (job_run eng evs j)"
  by (induction evs arbitrary: j) (simp_all add: job_step_checker_flag)


lemma cancel_internal_requests:
  "cancel_requests (job_pipeline_result (snd (cancel_internal eng j))) =
     (if is_terminal (state (job_pipeline_result j))
      then cancel_requests (job_pipeline_result j)
      else Suc (cancel_requests (job_pipeline_result j)))"
  by (simp add: cancel_internal_def pipeline_result_cancel_def Let_def
      split: prod.splits option.splits exn.splits)

lemma cancel_internal_raises:
  "fst (cancel_internal eng j) =
     (if \<not> is_terminal (state (job_pipeline_result j)) \<and>
         fst (eng (state (job_pipeline_result j))) = Some OtherError
      then Some OtherError else None)"
  by (simp add: cancel_internal_def pipeline_result_cancel_def Let_def
      split: prod.splits option.splits exn.splits)

lemma cancel_internal_frame:
  "job_logged (snd (cancel_internal eng j)) = job_logged j \<and>
   job_timer (snd (cancel_internal eng j)) = job_timer j \<and>
   job_condition_checker (snd (cancel_internal eng j)) = job_condition_checker j \<and>
   timer_triggered (snd (cancel_internal eng j))"
  by (simp add: cancel_internal_def pipeline_result_cancel_def Let_def
      split: prod.splits option.splits exn.splits)

lemma cancel_internal_terminal:
  "is_terminal (state (job_pipeline_result j)) \<Longrightarrow>
   job_pipeline_result (snd (cancel_internal eng j)) = job_pipeline_result j"
  by (simp add: cancel_internal_def Let_def)

lemma cancel_fst: "fst (cancel eng j) = fst (cancel_internal eng j)"
  by (cases "cancel_internal eng j") (simp add: cancel_def Let_def split: option.splits)

lemma cancel_pipeline_result:
  "job_pipeline_result (snd (cancel eng j)) = job_pipeline_result (snd (cancel_internal eng j))"
  by (cases "cancel_internal eng j") (simp add: cancel_def Let_def split: option.splits)

lemma cancel_logged: "job_logged (snd (cancel eng j)) = job_logged j"
  using cancel_internal_frame [of eng j]
  by (cases "cancel_internal eng j") (simp add: cancel_def Let_def split: option.splits)

lemma cancel_returns:
  assumes "fst (cancel eng j) = None"
  shows "\<not> timer_triggered (snd (cancel eng j)) \<and>
         job_timer (snd (cancel eng j)) = timer_cancel (job_timer j)"
proof -
  obtain e j1 where c: "cancel_internal eng j = (e, j1)"
    by (cases "cancel_internal eng j")
  have e: "e = None" using assms c by (simp add: cancel_fst)
  have t: "job_timer j1 = job_timer j" using cancel_internal_frame [of eng j] c by simp
  show ?thesis
    by (simp add: cancel_def c e t Let_def timer_is_alive_def timer_cancel_def)
qed

text \<open>
  C3. \<open>is_done()\<close> is true exactly when the state of the job is DONE, or the state is
  CANCELLED or CANCELLING and the timer flag or the size-limit checker's flag is set;
  with neither flag set, a cancelling or cancelled job is not done.
\<close>

theorem is_done_iff:
  "(is_done j \<longleftrightarrow>
      state (job_pipeline_result j) = DONE \<or>
      ((state (job_pipeline_result j) = CANCELLED \<or> state (job_pipeline_result j) = CANCELLING) \<and>
       (timer_triggered j \<or> condition_checker_triggered j))) \<and>
   (\<not> timer_triggered j \<and> \<not> condition_checker_triggered j \<and>
    (state (job_pipeline_result j) = CANCELLED \<or> state (job_pipeline_result j) = CANCELLING)
      \<longrightarrow> \<not> is_done j)"
  by (auto simp add: is_done_def)

theorem is_done_iff_witness:
  "\<not> is_done (BackgroundCachingJob_init \<lparr>state = CANCELLING, cancel_requests = 0\<rparr> True) \<and>
   is_done ((BackgroundCachingJob_init \<lparr>state = CANCELLING, cancel_requests = 0\<rparr> True)
              \<lparr>condition_checker_triggered := True\<rparr>)"
  using is_done_iff [of "BackgroundCachingJob_init \<lparr>state = CANCELLING, cancel_requests = 0\<rparr> True"]
    is_done_iff [of "(BackgroundCachingJob_init \<lparr>state = CANCELLING, cancel_requests = 0\<rparr> True)
              \<lparr>condition_checker_triggered := True\<rparr>"]
  by (simp add: BackgroundCachingJob_init_record)

text \<open>
  C8, as the code has it. \<open>cancel()\<close> asks the engine to cancel exactly when the state
  of the job is not terminal, and leaves the handle alone when it is. It writes nothing
  to the logger. Unless the engine's request raises an exception other than
  NotImplementedError, \<open>cancel()\<close> returns normally (a NotImplementedError is swallowed),
  the timer flag is False afterwards and a pending timer is cancelled (any other timer is
  left as it is).
\<close>

theorem cancel_effects:
  "cancel_requests (job_pipeline_result (snd (cancel eng j))) =
     (if is_terminal (state (job_pipeline_result j))
      then cancel_requests (job_pipeline_result j)
      else Suc (cancel_requests (job_pipeline_result j))) \<and>
   (is_terminal (state (job_pipeline_result j)) \<longrightarrow>
      job_pipeline_result (snd (cancel eng j)) = job_pipeline_result j) \<and>
   job_logged (snd (cancel eng j)) = job_logged j \<and>
   (is_terminal (state (job_pipeline_result j)) \<or>
    fst (eng (state (job_pipeline_result j))) \<noteq> Some OtherError \<longrightarrow>
      fst (cancel eng j) = None \<and>
      \<not> timer_triggered (snd (cancel eng j)) \<and>
      job_timer (snd (cancel eng j)) =
        (if job_timer j = TimerPending then TimerCancelled else job_timer j))"
proof -
  have a: "cancel_requests (job_pipeline_result (snd (cancel eng j))) =
     (if is_terminal (state (job_pipeline_result j))
      then cancel_requests (job_pipeline_result j)
      else Suc (cancel_requests (job_pipeline_result j)))"
    by (simp only: cancel_pipeline_result cancel_internal_requests)
  have b: "is_terminal (state (job_pipeline_result j)) \<longrightarrow>
      job_pipeline_result (snd (cancel eng j)) = job_pipeline_result j"
    by (simp add: cancel_pipeline_result cancel_internal_terminal)
  have c: "job_logged (snd (cancel eng j)) = job_logged j"
    by (rule cancel_logged)
  have d: "fst (cancel eng j) = None \<and>
      \<not> timer_triggered (snd (cancel eng j)) \<and>
      job_timer (snd (cancel eng j)) =
        (if job_timer j = TimerPending then TimerCancelled else job_timer j)"
    if h: "is_terminal (state (job_pipeline_result j)) \<or>
           fst (eng (state (job_pipeline_result j))) \<noteq> Some OtherError"
  proof -
    have n: "fst (cancel eng j) = None"
      using h by (auto simp add: cancel_fst cancel_internal_raises)
    show ?thesis using n cancel_returns [OF n] by (simp add: timer_cancel_def)
  qed
  show ?thesis using a b c d by blast
qed

theorem cancel_effects_witness:
  "is_terminal (state (job_pipeline_result done_job)) \<and>
   job_pipeline_result (snd (cancel engine_without_cancel done_job)) = job_pipeline_result done_job \<and>
   fst (engine_without_cancel (state (job_pipeline_result running_job))) \<noteq> Some OtherError \<and>
   fst (cancel engine_without_cancel running_job) = None \<and>
   cancel_requests (job_pipeline_result (snd (cancel engine_without_cancel running_job))) = 1 \<and>
   \<not> timer_triggered (snd (cancel engine_without_cancel running_job)) \<and>
   job_timer (snd (cancel engine_without_cancel running_job)) = TimerCancelled"
  using cancel_effects [of engine_without_cancel done_job]
    cancel_effects [of engine_without_cancel running_job]
  by (simp add: done_job_def running_job_def engine_without_cancel_def
      BackgroundCachingJob_init_record)

text \<open>
  C8, as the specification has it, fails: \<open>cancel()\<close> on a job that is DONE sends no
  request to the engine, and the NotImplementedError an engine raises for a RUNNING job
  is swallowed without a record in the log.
\<close>

theorem cancel_always_requests_counterexample:
  "cancel_requests (job_pipeline_result (snd (cancel engine_without_cancel done_job))) = 0 \<and>
   fst (engine_without_cancel (state (job_pipeline_result running_job))) = Some NotImplementedError \<and>
   job_logged (snd (cancel engine_without_cancel running_job)) = []"
  by (simp add: cancel_def cancel_internal_def pipeline_result_cancel_def done_job_def
      running_job_def engine_without_cancel_def BackgroundCachingJob_init_record
      timer_is_alive_def timer_cancel_def Let_def)

lemma engine_moves_flags:
  "timer_triggered (job_run eng (map EngineMoves ss) j) = timer_triggered j \<and>
   condition_checker_triggered (job_run eng (map EngineMoves ss) j) = condition_checker_triggered j"
  by (induction ss arbitrary: j) simp_all

text \<open>
  What holds of a job from any moment on, whatever its flags are then. After a poll of
  the running checker that finds the size limit reached, \<open>is_done()\<close> is true whenever
  the job is CANCELLING or CANCELLED, after every further sequence of these events:
  nothing among them resets the checker's flag. And after a call of \<open>cancel()\<close> that
  returns normally on a job with neither flag set, \<open>is_done()\<close> is false while the engine
  shows the job as CANCELLING.
\<close>

lemma checker_flag_decides_after_construction:
  "(job_condition_checker j = ThreadRunning \<longrightarrow>
      (\<forall>evs. let j2 = job_run eng evs (job_step eng (CheckerPolls True) j) in
         state (job_pipeline_result j2) = CANCELLING \<or>
         state (job_pipeline_result j2) = CANCELLED \<longrightarrow> is_done j2)) \<and>
   (\<not> timer_triggered j \<and> \<not> condition_checker_triggered j \<and> fst (cancel eng j) = None \<longrightarrow>
      (\<forall>ss. let j2 = job_run eng (map EngineMoves ss) (snd (cancel eng j)) in
         state (job_pipeline_result j2) = CANCELLING \<longrightarrow> \<not> is_done j2))"
proof -
  have first: "is_done (job_run eng evs (job_step eng (CheckerPolls True) j))"
    if run: "job_condition_checker j = ThreadRunning"
      and st: "state (job_pipeline_result (job_run eng evs (job_step eng (CheckerPolls True) j))) = CANCELLING \<or>
               state (job_pipeline_result (job_run eng evs (job_step eng (CheckerPolls True) j))) = CANCELLED"
    for evs
  proof -
    obtain e ended j1 where c: "should_end_condition_checker eng True j = (e, ended, j1)"
      by (cases "should_end_condition_checker eng True j")
    have "condition_checker_triggered j1"
      using should_end_checker_flag [of j True eng] c by simp
    then have "condition_checker_triggered (job_step eng (CheckerPolls True) j)"
      using run c by simp
    then have "condition_checker_triggered (job_run eng evs (job_step eng (CheckerPolls True) j))"
      by (rule job_run_checker_flag)
    then show ?thesis using st by (auto simp add: is_done_def)
  qed
  have second: "\<not> is_done (job_run eng (map EngineMoves ss) (snd (cancel eng j)))"
    if t: "\<not> timer_triggered j" and k: "\<not> condition_checker_triggered j"
      and n: "fst (cancel eng j) = None"
      and st: "state (job_pipeline_result (job_run eng (map EngineMoves ss) (snd (cancel eng j)))) = CANCELLING"
    for ss
  proof -
    have "\<not> timer_triggered (snd (cancel eng j))"
      using cancel_returns [OF n] by simp
    moreover have "\<not> condition_checker_triggered (snd (cancel eng j))"
      using k by (simp add: cancel_checker_flag)
    ultimately have
      "\<not> timer_triggered (job_run eng (map EngineMoves ss) (snd (cancel eng j))) \<and>
       \<not> condition_checker_triggered (job_run eng (map EngineMoves ss) (snd (cancel eng j)))"
      by (simp add: engine_moves_flags)
    then show ?thesis using st by (simp add: is_done_def)
  qed
  show ?thesis using first second by (simp add: Let_def)
qed

text \<open>
  C4 does not hold of the code. The constructor starts the checker thread (line 76)
  before it assigns the flags (lines 77-78), and the thread polls at once. When the size
  limit is already reached, that first poll sets the checker's flag and requests the
  cancellation, the engine moves the job to CANCELLING, and the constructor then
  overwrites the flag with False: the size-limit checker has cancelled the job before
  the timer fired, the checker thread has ended and the timer is cancelled, and yet
  \<open>is_done()\<close> is false, and stays false when the job becomes CANCELLED. In the other
  direction, a call of \<open>cancel()\<close> by the caller on a running job, with neither watcher
  having fired, leaves the timer flag True when the engine's request raises an exception
  other than NotImplementedError (line 117 is not reached), and \<open>is_done()\<close> is true
  while the job is CANCELLING.
\<close>

theorem size_limit_flag_lost_in_constructor:
  "job_condition_checker
     (BackgroundCachingJob_init_start \<lparr>state = RUNNING, cancel_requests = 0\<rparr> True) = ThreadRunning \<and>
   state (job_pipeline_result job_polled_in_constructor) = CANCELLING \<and>
   cancel_requests (job_pipeline_result job_polled_in_constructor) = 1 \<and>
   job_condition_checker job_polled_in_constructor = ThreadEnded \<and>
   job_timer job_polled_in_constructor = TimerCancelled \<and>
   \<not> condition_checker_triggered job_polled_in_constructor \<and>
   \<not> is_done job_polled_in_constructor \<and>
   state (job_pipeline_result
     (job_run cancelling_engine [EngineMoves CANCELLED] job_polled_in_constructor)) = CANCELLED \<and>
   \<not> is_done (job_run cancelling_engine [EngineMoves CANCELLED] job_polled_in_constructor) \<and>
   \<not> timer_triggered running_job \<and> \<not> condition_checker_triggered running_job \<and>
   fst (cancel failing_engine running_job) = Some OtherError \<and>
   state (job_pipeline_result (snd (cancel failing_engine running_job))) = CANCELLING \<and>
   is_done (snd (cancel failing_engine running_job))"
  by (simp add: job_polled_in_constructor_def construct_def BackgroundCachingJob_init_start_def
      BackgroundCachingJob_init_flags_def running_job_def BackgroundCachingJob_init_record
      cancelling_engine_def failing_engine_def should_end_condition_checker_def cancel_def
      cancel_internal_def pipeline_result_cancel_def timer_is_alive_def timer_cancel_def
      is_done_def Let_def)

section \<open>Properties of the source-signature tracker\<close>

lemma is_source_to_cache_changed_fst:
  "fst (is_source_to_cache_changed to_str env p upd) \<longleftrightarrow>
     \<not> extract_source_to_cache_signature to_str p \<subseteq> get_cached_source_signature env p"
  by (simp add: is_source_to_cache_changed_def Let_def)

lemma changed_and_updating:
  assumes "fst (is_source_to_cache_changed to_str env p True)"
  shows "get_cached_source_signature (snd (is_source_to_cache_changed to_str env p True)) p =
           extract_source_to_cache_signature to_str p"
    and "env_background_caching_jobs (snd (is_source_to_cache_changed to_str env p True)) =
           env_background_caching_jobs env"
    and "env_cache (snd (is_source_to_cache_changed to_str env p True)) = Map.empty"
proof -
  have c: "\<not> extract_source_to_cache_signature to_str p \<subseteq> get_cached_source_signature env p"
    using assms by (simp add: is_source_to_cache_changed_fst)
  have s: "snd (is_source_to_cache_changed to_str env p True) =
      set_cached_source_signature
        (cleanup (if get_cached_source_signature env p = {}
           then info ''Interactive Beam has detected you have unbounded sources in your pipeline.'' env
           else info ''Interactive Beam has detected a new streaming source was added to the pipeline.'' env))
        p (extract_source_to_cache_signature to_str p)"
    using c by (simp add: is_source_to_cache_changed_def Let_def)
  show "get_cached_source_signature (snd (is_source_to_cache_changed to_str env p True)) p =
           extract_source_to_cache_signature to_str p"
    by (simp add: s get_cached_source_signature_def set_cached_source_signature_def)
  show "env_background_caching_jobs (snd (is_source_to_cache_changed to_str env p True)) =
           env_background_caching_jobs env"
    by (simp add: s set_cached_source_signature_def cleanup_def info_def)
  show "env_cache (snd (is_source_to_cache_changed to_str env p True)) = Map.empty"
    by (simp add: s set_cached_source_signature_def cleanup_def info_def)
qed

lemma unchanged_or_not_updating:
  assumes "\<not> fst (is_source_to_cache_changed to_str env p upd) \<or> \<not> upd"
  shows "snd (is_source_to_cache_changed to_str env p upd) = env"
proof -
  have "\<not> (\<not> extract_source_to_cache_signature to_str p \<subseteq> get_cached_source_signature env p \<and> upd)"
    using assms by (simp add: is_source_to_cache_changed_fst)
  then have "is_source_to_cache_changed to_str env p upd =
      (\<not> extract_source_to_cache_signature to_str p \<subseteq> get_cached_source_signature env p, env)"
    unfolding is_source_to_cache_changed_def Let_def by (simp only: if_False)
  then show ?thesis by simp
qed

text \<open>
  C5. The check returns true exactly when the signature extracted from the pipeline is
  not a subset of the recorded one, the recorded one being empty for a pipeline without
  a record. So a signature inside the recorded one (sources removed) reports no change,
  and a signature with a string the record lacks (a source added or mutated) reports a
  change.
\<close>

theorem is_source_to_cache_changed_iff:
  "(fst (is_source_to_cache_changed to_str env p upd) \<longleftrightarrow>
      \<not> extract_source_to_cache_signature to_str p \<subseteq> get_cached_source_signature env p) \<and>
   (env_cached_source_signature env (pipeline_id p) = None \<longrightarrow>
      get_cached_source_signature env p = {}) \<and>
   (extract_source_to_cache_signature to_str p \<subseteq> get_cached_source_signature env p \<longrightarrow>
      \<not> fst (is_source_to_cache_changed to_str env p upd)) \<and>
   ((\<exists>s \<in> extract_source_to_cache_signature to_str p. s \<notin> get_cached_source_signature env p) \<longrightarrow>
      fst (is_source_to_cache_changed to_str env p upd))"
  by (auto simp add: is_source_to_cache_changed_fst get_cached_source_signature_def)

lemma env_S1_signature: "get_cached_source_signature env_S1 pipeline_S1 = {''S1''}"
  by (simp add: env_S1_def is_source_to_cache_changed_def fresh_env_def pipeline_S1_def
      get_cached_source_signature_def set_cached_source_signature_def cleanup_def info_def
      extract_source_to_cache_signature_def Let_def)

lemma env_S1_signature_S1_S2: "get_cached_source_signature env_S1 pipeline_S1_S2 = {''S1''}"
  by (simp add: env_S1_def is_source_to_cache_changed_def fresh_env_def pipeline_S1_def
      pipeline_S1_S2_def get_cached_source_signature_def set_cached_source_signature_def
      cleanup_def info_def extract_source_to_cache_signature_def Let_def)

theorem is_source_to_cache_changed_iff_witness:
  "env_cached_source_signature fresh_env (pipeline_id pipeline_S1) = None \<and>
   fst (is_source_to_cache_changed (\<lambda>s. s) fresh_env pipeline_S1 True) \<and>
   extract_source_to_cache_signature (\<lambda>s. s) pipeline_none
     \<subseteq> get_cached_source_signature env_S1 pipeline_none \<and>
   \<not> fst (is_source_to_cache_changed (\<lambda>s. s) env_S1 pipeline_none True) \<and>
   (\<exists>s \<in> extract_source_to_cache_signature (\<lambda>s. s) pipeline_S1_S2.
      s \<notin> get_cached_source_signature env_S1 pipeline_S1_S2) \<and>
   fst (is_source_to_cache_changed (\<lambda>s. s) env_S1 pipeline_S1_S2 True)"
proof -
  have a: "env_cached_source_signature fresh_env (pipeline_id pipeline_S1) = None"
    by (simp add: fresh_env_def)
  have b: "\<not> extract_source_to_cache_signature (\<lambda>s. s) pipeline_S1
             \<subseteq> get_cached_source_signature fresh_env pipeline_S1"
    by (simp add: extract_source_to_cache_signature_def get_cached_source_signature_def
        fresh_env_def pipeline_S1_def)
  have c: "extract_source_to_cache_signature (\<lambda>s. s) pipeline_none
             \<subseteq> get_cached_source_signature env_S1 pipeline_none"
    by (simp add: extract_source_to_cache_signature_def pipeline_none_def)
  have d: "\<exists>s \<in> extract_source_to_cache_signature (\<lambda>s. s) pipeline_S1_S2.
             s \<notin> get_cached_source_signature env_S1 pipeline_S1_S2"
    by (simp add: extract_source_to_cache_signature_def env_S1_signature_S1_S2)
      (simp add: pipeline_S1_S2_def)
  show ?thesis
    using a b c d
      is_source_to_cache_changed_iff [of "\<lambda>s. s" fresh_env pipeline_S1 True]
      is_source_to_cache_changed_iff [of "\<lambda>s. s" env_S1 pipeline_none True]
      is_source_to_cache_changed_iff [of "\<lambda>s. s" env_S1 pipeline_S1_S2 True]
    by blast
qed

text \<open>
  C6. When the check reports a change and is allowed to update, the environment
  afterwards has no cached data and records the extracted signature for the pipeline
  (the records of other pipelines and the tracked jobs are as before); when it
  reports no change, or is called with \<open>update_cached_source_signature=False\<close>, the
  environment is left as it was.
\<close>

theorem is_source_to_cache_changed_effects:
  "(fst (is_source_to_cache_changed to_str env p upd) \<and> upd \<longrightarrow>
      env_cache (snd (is_source_to_cache_changed to_str env p upd)) = Map.empty \<and>
      get_cached_source_signature (snd (is_source_to_cache_changed to_str env p upd)) p =
        extract_source_to_cache_signature to_str p \<and>
      (\<forall>q. q \<noteq> pipeline_id p \<longrightarrow>
         env_cached_source_signature (snd (is_source_to_cache_changed to_str env p upd)) q =
           env_cached_source_signature env q) \<and>
      env_background_caching_jobs (snd (is_source_to_cache_changed to_str env p upd)) =
        env_background_caching_jobs env) \<and>
   (\<not> fst (is_source_to_cache_changed to_str env p upd) \<or> \<not> upd \<longrightarrow>
      snd (is_source_to_cache_changed to_str env p upd) = env)"
  by (simp add: is_source_to_cache_changed_def Let_def get_cached_source_signature_def
      set_cached_source_signature_def cleanup_def info_def)

theorem is_source_to_cache_changed_effects_witness:
  "fst (is_source_to_cache_changed (\<lambda>s. s) fresh_env pipeline_S1 True) \<and>
   env_cache fresh_env ''full'' = Some ''data'' \<and>
   env_cache (snd (is_source_to_cache_changed (\<lambda>s. s) fresh_env pipeline_S1 True)) = Map.empty \<and>
   get_cached_source_signature (snd (is_source_to_cache_changed (\<lambda>s. s) fresh_env pipeline_S1 True))
     pipeline_S1 = {''S1''} \<and>
   snd (is_source_to_cache_changed (\<lambda>s. s) fresh_env pipeline_S1 False) = fresh_env \<and>
   \<not> fst (is_source_to_cache_changed (\<lambda>s. s) env_S1 pipeline_none True) \<and>
   snd (is_source_to_cache_changed (\<lambda>s. s) env_S1 pipeline_none True) = env_S1"
proof -
  have a: "fst (is_source_to_cache_changed (\<lambda>s. s) fresh_env pipeline_S1 True)"
    by (simp add: is_source_to_cache_changed_fst extract_source_to_cache_signature_def
        get_cached_source_signature_def fresh_env_def pipeline_S1_def)
  have b: "env_cache fresh_env ''full'' = Some ''data''"
    by (simp add: fresh_env_def)
  have c: "extract_source_to_cache_signature (\<lambda>s. s) pipeline_S1 = {''S1''}"
    by (simp add: extract_source_to_cache_signature_def pipeline_S1_def)
  have d: "\<not> fst (is_source_to_cache_changed (\<lambda>s. s) env_S1 pipeline_none True)"
    by (simp add: is_source_to_cache_changed_fst extract_source_to_cache_signature_def
        pipeline_none_def)
  show ?thesis
    using a b c d
      is_source_to_cache_changed_effects [of "\<lambda>s. s" fresh_env pipeline_S1 True]
      is_source_to_cache_changed_effects [of "\<lambda>s. s" fresh_env pipeline_S1 False]
      is_source_to_cache_changed_effects [of "\<lambda>s. s" env_S1 pipeline_none True]
    by simp
qed

lemma has_source_to_cache_fst: "fst (has_source_to_cache env p) = has_unbounded_sources p"
  by (simp add: has_source_to_cache_def Let_def)

lemma has_source_to_cache_signature:
  "get_cached_source_signature (snd (has_source_to_cache env p)) p = get_cached_source_signature env p"
  by (simp add: has_source_to_cache_def Let_def get_cached_source_signature_def)

lemma changed_after_has_source_to_cache:
  "fst (is_source_to_cache_changed to_str (snd (has_source_to_cache env p)) p upd) =
   fst (is_source_to_cache_changed to_str env p upd)"
  by (simp add: is_source_to_cache_changed_fst has_source_to_cache_signature)

lemma is_background_caching_job_needed_snd:
  "snd (is_background_caching_job_needed to_str env p) =
   snd (is_source_to_cache_changed to_str (snd (has_source_to_cache env p)) p True)"
  by (simp add: is_background_caching_job_needed_def Let_def split: prod.splits)

lemma is_background_caching_job_needed_fst:
  "fst (is_background_caching_job_needed to_str env p) \<longleftrightarrow>
     has_unbounded_sources p \<and>
     (case get_background_caching_job env p of
        None \<Rightarrow> True
      | Some j \<Rightarrow> \<not> (is_done j \<or> is_running j) \<or>
                  fst (is_source_to_cache_changed to_str env p True))"
proof -
  obtain nc env1 where h: "has_source_to_cache env p = (nc, env1)"
    by (cases "has_source_to_cache env p")
  obtain cc env2 where c: "is_source_to_cache_changed to_str env1 p True = (cc, env2)"
    by (cases "is_source_to_cache_changed to_str env1 p True")
  have nc: "nc = has_unbounded_sources p"
    using has_source_to_cache_fst [of env p] h by simp
  have cc: "cc = fst (is_source_to_cache_changed to_str env p True)"
    using changed_after_has_source_to_cache [of to_str env p True] h c by simp
  show ?thesis
    by (simp add: is_background_caching_job_needed_def Let_def h c nc cc)
qed

text \<open>
  C7. The decision is true exactly when the pipeline has unbounded sources and no job is
  tracked for it, or the tracked job is neither done nor running, or the signature check
  reports a change. The signature check runs on every call with updating enabled: the
  environment afterwards is the one that check leaves (after the cache manager was
  wrapped), whatever decided the result. Two calls in a row can therefore differ: with
  a running job tracked for a pipeline seen for the first time, the first call answers
  true and the second false.
\<close>

theorem is_background_caching_job_needed_iff:
  "(fst (is_background_caching_job_needed to_str env p) \<longleftrightarrow>
      has_unbounded_sources p \<and>
      (get_background_caching_job env p = None \<or>
       (\<exists>j. get_background_caching_job env p = Some j \<and> \<not> is_done j \<and> \<not> is_running j) \<or>
       fst (is_source_to_cache_changed to_str env p True))) \<and>
   snd (is_background_caching_job_needed to_str env p) =
     snd (is_source_to_cache_changed to_str (snd (has_source_to_cache env p)) p True) \<and>
   get_cached_source_signature (snd (is_background_caching_job_needed to_str env p)) p =
     (if fst (is_source_to_cache_changed to_str env p True)
      then extract_source_to_cache_signature to_str p
      else get_cached_source_signature env p) \<and>
   fst (is_background_caching_job_needed (\<lambda>s. s) env_running pipeline_S1) \<and>
   \<not> fst (is_background_caching_job_needed (\<lambda>s. s)
           (snd (is_background_caching_job_needed (\<lambda>s. s) env_running pipeline_S1)) pipeline_S1)"
proof -
  have a: "fst (is_background_caching_job_needed to_str env p) \<longleftrightarrow>
      has_unbounded_sources p \<and>
      (get_background_caching_job env p = None \<or>
       (\<exists>j. get_background_caching_job env p = Some j \<and> \<not> is_done j \<and> \<not> is_running j) \<or>
       fst (is_source_to_cache_changed to_str env p True))"
    by (cases "get_background_caching_job env p")
      (auto simp add: is_background_caching_job_needed_fst)
  have b: "snd (is_background_caching_job_needed to_str env p) =
     snd (is_source_to_cache_changed to_str (snd (has_source_to_cache env p)) p True)"
    by (rule is_background_caching_job_needed_snd)
  have c: "get_cached_source_signature (snd (is_background_caching_job_needed to_str env p)) p =
     (if fst (is_source_to_cache_changed to_str env p True)
      then extract_source_to_cache_signature to_str p
      else get_cached_source_signature env p)"
    using changed_and_updating(1) [of to_str "snd (has_source_to_cache env p)" p]
      unchanged_or_not_updating [of to_str "snd (has_source_to_cache env p)" p True]
    by (simp add: b changed_after_has_source_to_cache has_source_to_cache_signature)
  have run: "get_background_caching_job env_running pipeline_S1 = Some running_job"
    by (simp add: get_background_caching_job_def env_running_def pipeline_S1_def fresh_env_def)
  have ch1: "fst (is_source_to_cache_changed (\<lambda>s. s) env_running pipeline_S1 True)"
    by (simp add: is_source_to_cache_changed_fst extract_source_to_cache_signature_def
        get_cached_source_signature_def env_running_def fresh_env_def pipeline_S1_def)
  have src: "has_unbounded_sources pipeline_S1"
    by (simp add: has_unbounded_sources_def pipeline_S1_def)
  have d: "fst (is_background_caching_job_needed (\<lambda>s. s) env_running pipeline_S1)"
    by (simp add: is_background_caching_job_needed_fst run ch1 src)
  let ?env2 = "snd (is_background_caching_job_needed (\<lambda>s. s) env_running pipeline_S1)"
  have env2: "?env2 = snd (is_source_to_cache_changed (\<lambda>s. s)
                 (snd (has_source_to_cache env_running pipeline_S1)) pipeline_S1 True)"
    by (rule is_background_caching_job_needed_snd)
  have ch1': "fst (is_source_to_cache_changed (\<lambda>s. s)
                 (snd (has_source_to_cache env_running pipeline_S1)) pipeline_S1 True)"
    by (simp add: changed_after_has_source_to_cache ch1)
  have eff: "get_cached_source_signature ?env2 pipeline_S1 =
               extract_source_to_cache_signature (\<lambda>s. s) pipeline_S1 \<and>
             env_background_caching_jobs ?env2 =
               env_background_caching_jobs (snd (has_source_to_cache env_running pipeline_S1))"
    using changed_and_updating(1,2)
      [of "\<lambda>s. s" "snd (has_source_to_cache env_running pipeline_S1)" pipeline_S1] ch1'
    by (simp add: env2)
  have run2: "get_background_caching_job ?env2 pipeline_S1 = Some running_job"
    using eff run by (simp add: get_background_caching_job_def has_source_to_cache_def Let_def)
  have ch2: "\<not> fst (is_source_to_cache_changed (\<lambda>s. s) ?env2 pipeline_S1 True)"
    using eff by (simp add: is_source_to_cache_changed_fst)
  have rj: "is_running running_job"
    by (simp add: is_running_def running_job_def BackgroundCachingJob_init_record)
  have e: "\<not> fst (is_background_caching_job_needed (\<lambda>s. s) ?env2 pipeline_S1)"
    by (simp add: is_background_caching_job_needed_fst run2 ch2 rj)
  show ?thesis using a b c d e by blast
qed

theorem is_background_caching_job_needed_iff_witness:
  "has_unbounded_sources pipeline_S1 \<and>
   get_background_caching_job fresh_env pipeline_S1 = None \<and>
   fst (is_background_caching_job_needed (\<lambda>s. s) fresh_env pipeline_S1) \<and>
   get_cached_source_signature
     (snd (is_background_caching_job_needed (\<lambda>s. s) fresh_env pipeline_S1)) pipeline_S1 = {''S1''} \<and>
   \<not> has_unbounded_sources pipeline_none \<and>
   \<not> fst (is_background_caching_job_needed (\<lambda>s. s) fresh_env pipeline_none)"
proof -
  have a: "has_unbounded_sources pipeline_S1 \<and> \<not> has_unbounded_sources pipeline_none"
    by (simp add: has_unbounded_sources_def pipeline_S1_def pipeline_none_def)
  have b: "get_background_caching_job fresh_env pipeline_S1 = None"
    by (simp add: get_background_caching_job_def fresh_env_def)
  have c: "fst (is_source_to_cache_changed (\<lambda>s. s) fresh_env pipeline_S1 True)"
    by (simp add: is_source_to_cache_changed_fst extract_source_to_cache_signature_def
        get_cached_source_signature_def fresh_env_def pipeline_S1_def)
  have d: "extract_source_to_cache_signature (\<lambda>s. s) pipeline_S1 = {''S1''}"
    by (simp add: extract_source_to_cache_signature_def pipeline_S1_def)
  note T1 = is_background_caching_job_needed_iff [of "\<lambda>s. s" fresh_env pipeline_S1]
  note T2 = is_background_caching_job_needed_iff [of "\<lambda>s. s" fresh_env pipeline_none]
  have e: "fst (is_background_caching_job_needed (\<lambda>s. s) fresh_env pipeline_S1)"
    using T1 [THEN conjunct1] a b by blast
  have f: "get_cached_source_signature
     (snd (is_background_caching_job_needed (\<lambda>s. s) fresh_env pipeline_S1)) pipeline_S1 = {''S1''}"
    using T1 [THEN conjunct2, THEN conjunct2, THEN conjunct1] c d by simp
  have g: "\<not> fst (is_background_caching_job_needed (\<lambda>s. s) fresh_env pipeline_none)"
    using T2 [THEN conjunct1] a by blast
  show ?thesis using a b e f g by blast
qed

section \<open>Properties of the materialisation of cached elements\<close>

lemma decode_elements_acc:
  "decode_elements dec tvs out = out @ decode_elements dec tvs []"
proof (induction tvs arbitrary: out)
  case Nil
  show ?case by simp
next
  case (Cons tv tvs)
  show ?case
  proof (cases "dec (encoded_element tv)")
    case Raises
    then show ?thesis by simp
  next
    case (Returns v)
    have "decode_elements dec (tv # tvs) out = decode_elements dec tvs (out @ [v])"
      using Returns by simp
    also have "\<dots> = (out @ [v]) @ decode_elements dec tvs []"
      by (rule Cons.IH)
    also have "\<dots> = out @ decode_elements dec tvs [v]"
      using Cons.IH [of "[v]"] by simp
    also have "\<dots> = out @ decode_elements dec (tv # tvs) []"
      using Returns by simp
    finally show ?thesis .
  qed
qed

lemma decode_elements_takeWhile:
  "decode_elements dec tvs [] =
     concat (map (\<lambda>tv. decoded_value (dec (encoded_element tv)))
       (takeWhile (\<lambda>tv. dec (encoded_element tv) \<noteq> Raises) tvs))"
proof (induction tvs)
  case Nil
  show ?case by simp
next
  case (Cons tv tvs)
  show ?case
  proof (cases "dec (encoded_element tv)")
    case Raises
    then show ?thesis by simp
  next
    case (Returns v)
    then show ?thesis
      using Cons.IH decode_elements_acc [of dec tvs "[v]"] by simp
  qed
qed

lemma decode_elements_all:
  "list_all (\<lambda>tv. dec (encoded_element tv) \<noteq> Raises) tvs \<Longrightarrow>
   decode_elements dec tvs [] = concat (map (\<lambda>tv. decoded_value (dec (encoded_element tv))) tvs)"
  by (simp add: decode_elements_takeWhile list_all_iff takeWhile_eq_all_conv [THEN iffD2])

lemma materialize_acc:
  "materialize cm key its out = out @ materialize cm key its []"
proof (induction its arbitrary: out)
  case Nil
  show ?case by simp
next
  case (Cons a its)
  show ?case
  proof (cases a)
    case Raises
    then show ?thesis using Cons.IH [of out] by simp
  next
    case (Returns item)
    show ?thesis
    proof (cases item)
      case (Plain el)
      show ?thesis
      proof (cases "cm_windowed cm el")
        case Raises
        then show ?thesis using Returns Plain Cons.IH [of out] by simp
      next
        case (Returns v)
        then show ?thesis
          using \<open>a = Returns item\<close> Plain Cons.IH [of "out @ [v]"] Cons.IH [of "[v]"] by simp
      qed
    next
      case (Event e)
      show ?thesis
      proof (cases e)
        case (AddElements tvs t)
        have "materialize cm key (a # its) out =
                decode_elements (cm_decode cm key) tvs out @ materialize cm key its []"
          using Returns Event AddElements
            Cons.IH [of "decode_elements (cm_decode cm key) tvs out"] by simp
        moreover have "materialize cm key (a # its) [] =
                decode_elements (cm_decode cm key) tvs [] @ materialize cm key its []"
          using Returns Event AddElements
            Cons.IH [of "decode_elements (cm_decode cm key) tvs []"] by simp
        ultimately show ?thesis
          using decode_elements_acc [of "cm_decode cm key" tvs out] by simp
      next
        case (AdvanceWatermark w t)
        then show ?thesis using Returns Event Cons.IH [of out] by simp
      next
        case (AdvanceProcessingTime d)
        then show ?thesis using Returns Event Cons.IH [of out] by simp
      qed
    qed
  qed
qed

lemma materialize_append:
  "materialize cm key (xs @ ys) out = materialize cm key ys (materialize cm key xs out)"
  by (induction cm key xs out rule: materialize.induct) (simp_all split: attempt.splits)

lemma materialize_split:
  "materialize cm key (xs @ ys) [] = materialize cm key xs [] @ materialize cm key ys []"
  using materialize_append [of cm key xs ys "[]"] materialize_acc [of cm key ys "materialize cm key xs []"]
  by simp

lemma materialize_filter:
  "materialize cm key (filter (\<lambda>a. \<not> is_time_event a) its) out = materialize cm key its out"
  by (induction cm key its out rule: materialize.induct) (simp_all split: attempt.splits)

lemma materialize_events:
  "list_all (decodes (cm_decode cm key)) evs \<Longrightarrow>
   materialize cm key (map (\<lambda>e. Returns (Event e)) evs) [] =
     concat (map (payload (cm_decode cm key)) (filter is_add_elements evs))"
proof (induction evs)
  case Nil
  show ?case by simp
next
  case (Cons e evs)
  then have ih: "materialize cm key (map (\<lambda>e. Returns (Event e)) evs) [] =
     concat (map (payload (cm_decode cm key)) (filter is_add_elements evs))"
    by simp
  show ?case
  proof (cases e)
    case (AddElements tvs t)
    have all: "list_all (\<lambda>tv. cm_decode cm key (encoded_element tv) \<noteq> Raises) tvs"
      using Cons.prems AddElements by simp
    have "materialize cm key (map (\<lambda>e. Returns (Event e)) (e # evs)) [] =
            materialize cm key (map (\<lambda>e. Returns (Event e)) evs)
              (decode_elements (cm_decode cm key) tvs [])"
      using AddElements by simp
    also have "\<dots> = decode_elements (cm_decode cm key) tvs [] @
                       materialize cm key (map (\<lambda>e. Returns (Event e)) evs) []"
      by (rule materialize_acc)
    finally show ?thesis
      using AddElements ih decode_elements_all [OF all] by simp
  next
    case (AdvanceWatermark w t)
    then show ?thesis using ih by simp
  next
    case (AdvanceProcessingTime d)
    then show ?thesis using ih by simp
  qed
qed

lemma to_element_list_read:
  "cm_exists cm key = Returns True \<Longrightarrow> cm_read cm key = Returns its \<Longrightarrow>
   to_element_list cm key = materialize cm key its []"
  by (simp add: to_element_list_def)

text \<open>
  C10. The list returned by \<open>_to_element_list\<close> holds the decoded payloads of
  AddElements events only: dropping the watermark and processing-time events from the
  stream read from the cache leaves the result as it is, and for a stream of events
  whose elements all decode the result is the concatenation of the payloads of its
  AddElements events, in order. For a cache key that does not exist the result is the
  empty list.
\<close>

theorem to_element_list_add_elements_only:
  "(cm_exists cm key = Returns False \<longrightarrow> to_element_list cm key = []) \<and>
   (cm_exists cm key = Returns True \<and> cm_read cm key = Returns its \<longrightarrow>
      to_element_list cm key =
        materialize cm key (filter (\<lambda>a. \<not> is_time_event a) its) []) \<and>
   (cm_exists cm key = Returns True \<and>
    cm_read cm key = Returns (map (\<lambda>e. Returns (Event e)) evs) \<and>
    list_all (decodes (cm_decode cm key)) evs \<longrightarrow>
      to_element_list cm key =
        concat (map (payload (cm_decode cm key)) (filter is_add_elements evs)))"
proof -
  have a: "cm_exists cm key = Returns False \<longrightarrow> to_element_list cm key = []"
    by (simp add: to_element_list_def)
  have b: "cm_exists cm key = Returns True \<and> cm_read cm key = Returns its \<longrightarrow>
      to_element_list cm key =
        materialize cm key (filter (\<lambda>a. \<not> is_time_event a) its) []"
    by (simp add: to_element_list_read materialize_filter)
  have c: "cm_exists cm key = Returns True \<and>
    cm_read cm key = Returns (map (\<lambda>e. Returns (Event e)) evs) \<and>
    list_all (decodes (cm_decode cm key)) evs \<longrightarrow>
      to_element_list cm key =
        concat (map (payload (cm_decode cm key)) (filter is_add_elements evs))"
    by (simp add: to_element_list_read materialize_events)
  show ?thesis using a b c by blast
qed

theorem to_element_list_add_elements_only_witness:
  "cm_exists (sample_cache_manager (map (\<lambda>e. Returns (Event e)) mixed_events)) ''missing'' = Returns False \<and>
   to_element_list (sample_cache_manager (map (\<lambda>e. Returns (Event e)) mixed_events)) ''missing'' = [] \<and>
   cm_exists (sample_cache_manager (map (\<lambda>e. Returns (Event e)) mixed_events)) ''k'' = Returns True \<and>
   list_all (decodes (cm_decode (sample_cache_manager (map (\<lambda>e. Returns (Event e)) mixed_events)) ''k''))
     mixed_events \<and>
   to_element_list (sample_cache_manager (map (\<lambda>e. Returns (Event e)) mixed_events)) ''k'' = [''a'', ''b'']"
proof -
  let ?cm = "sample_cache_manager (map (\<lambda>e. Returns (Event e)) mixed_events)"
  have a: "cm_exists ?cm ''missing'' = Returns False"
    by (simp add: sample_cache_manager_def)
  have b: "cm_exists ?cm ''k'' = Returns True"
    by (simp add: sample_cache_manager_def)
  have c: "cm_read ?cm ''k'' = Returns (map (\<lambda>e. Returns (Event e)) mixed_events)"
    by (simp add: sample_cache_manager_def)
  have d: "list_all (decodes (cm_decode ?cm ''k'')) mixed_events"
    by (simp add: sample_cache_manager_def mixed_events_def)
  have e: "concat (map (payload (cm_decode ?cm ''k'')) (filter is_add_elements mixed_events)) =
             [''a'', ''b'']"
    by (simp add: sample_cache_manager_def mixed_events_def)
  note T1 = to_element_list_add_elements_only [of ?cm "''missing''"]
  note T2 = to_element_list_add_elements_only [of ?cm "''k''" _ mixed_events]
  have f: "to_element_list ?cm ''missing'' = []"
    using T1 [THEN conjunct1] a by blast
  have g: "to_element_list ?cm ''k'' = [''a'', ''b'']"
    using T2 [THEN conjunct2, THEN conjunct2] b c d e by simp
  show ?thesis using a b d f g by blast
qed

text \<open>
  C9, as the code has it. Exceptions are caught once per item the reader yields (an
  event, or a plain element), not once per element of an event: the result for a stream
  is the results for its items one after the other, so an item that fails does not touch
  what the items before and after it contribute. An item at which \<open>next\<close> raises
  contributes nothing; a plain element contributes its value, or nothing when its
  conversion raises; an AddElements event contributes the values of its elements up to
  the first one that fails to decode, and nothing of the elements after that one.
\<close>

theorem materialize_per_item:
  "(cm_exists cm key = Returns True \<and> cm_read cm key = Returns (xs @ [x] @ ys) \<longrightarrow>
      to_element_list cm key =
        materialize cm key xs [] @ materialize cm key [x] [] @ materialize cm key ys []) \<and>
   materialize cm key [Raises] [] = [] \<and>
   materialize cm key [Returns (Plain el)] [] = decoded_value (cm_windowed cm el) \<and>
   materialize cm key [Returns (Event (AddElements tvs t))] [] =
     concat (map (\<lambda>tv. decoded_value (cm_decode cm key (encoded_element tv)))
       (takeWhile (\<lambda>tv. cm_decode cm key (encoded_element tv) \<noteq> Raises) tvs))"
proof -
  have a: "cm_exists cm key = Returns True \<and> cm_read cm key = Returns (xs @ [x] @ ys) \<longrightarrow>
      to_element_list cm key =
        materialize cm key xs [] @ materialize cm key [x] [] @ materialize cm key ys []"
    using materialize_split [of cm key xs "[x] @ ys"] materialize_split [of cm key "[x]" ys]
    by (simp add: to_element_list_read)
  have b: "materialize cm key [Raises] [] = []"
    by simp
  have c: "materialize cm key [Returns (Plain el)] [] = decoded_value (cm_windowed cm el)"
    by (cases "cm_windowed cm el") simp_all
  have d: "materialize cm key [Returns (Event (AddElements tvs t))] [] =
     concat (map (\<lambda>tv. decoded_value (cm_decode cm key (encoded_element tv)))
       (takeWhile (\<lambda>tv. cm_decode cm key (encoded_element tv) \<noteq> Raises) tvs))"
    by (simp add: decode_elements_takeWhile)
  show ?thesis using a b c d by blast
qed

theorem materialize_per_item_witness:
  "cm_exists (sample_cache_manager plain_stream) ''k'' = Returns True \<and>
   cm_read (sample_cache_manager plain_stream) ''k'' =
     Returns ([Returns (Plain ''x'')] @ [Returns (Plain ''bad'')] @ [Returns (Plain ''y'')]) \<and>
   cm_windowed (sample_cache_manager plain_stream) ''bad'' = Raises \<and>
   to_element_list (sample_cache_manager plain_stream) ''k'' = [''x'', ''y'']"
proof -
  let ?cm = "sample_cache_manager plain_stream"
  have a: "cm_exists ?cm ''k'' = Returns True"
    by (simp add: sample_cache_manager_def)
  have b: "cm_read ?cm ''k'' =
     Returns ([Returns (Plain ''x'')] @ [Returns (Plain ''bad'')] @ [Returns (Plain ''y'')])"
    by (simp add: sample_cache_manager_def plain_stream_def)
  have c: "cm_windowed ?cm ''bad'' = Raises \<and> cm_windowed ?cm ''x'' = Returns ''x'' \<and>
           cm_windowed ?cm ''y'' = Returns ''y''"
    by (simp add: sample_cache_manager_def)
  have d: "to_element_list ?cm ''k'' =
        materialize ?cm ''k'' [Returns (Plain ''x'')] [] @
        materialize ?cm ''k'' [Returns (Plain ''bad'')] [] @
        materialize ?cm ''k'' [Returns (Plain ''y'')] []"
    using materialize_per_item
      [of ?cm "''k''" "[Returns (Plain ''x'')]" "Returns (Plain ''bad'')" "[Returns (Plain ''y'')]",
       THEN conjunct1] a b by blast
  have e: "to_element_list ?cm ''k'' = [''x'', ''y'']"
    using c by (simp add: d)
  show ?thesis using a b c e by blast
qed

text \<open>
  C9, as the specification has it, fails: in an AddElements event whose first element
  does not decode, the second element, which decodes, is lost with it, and the list
  returned is empty.
\<close>

theorem skip_only_offending_element_counterexample:
  "cm_exists (sample_cache_manager bad_then_good) ''k'' = Returns True \<and>
   cm_read (sample_cache_manager bad_then_good) ''k'' =
     Returns [Returns (Event (AddElements
       [TimestampedElement ''bad'' 0, TimestampedElement ''good'' 0] ''t''))] \<and>
   cm_decode (sample_cache_manager bad_then_good) ''k'' ''bad'' = Raises \<and>
   cm_decode (sample_cache_manager bad_then_good) ''k'' ''good'' = Returns ''good'' \<and>
   to_element_list (sample_cache_manager bad_then_good) ''k'' = []"
  by (simp add: to_element_list_def sample_cache_manager_def bad_then_good_def)

section \<open>Properties of the clock-merging reader\<close>

lemma select_None_concat: "select qs = None \<Longrightarrow> concat qs = []"
  by (induction qs rule: select.induct) (auto split: option.splits if_splits)

lemma select_mset:
  "select qs = Some (x, qs') \<Longrightarrow> mset (concat qs) = add_mset x (mset (concat qs'))"
  by (induction qs arbitrary: x qs' rule: select.induct) (auto split: option.splits if_splits)

lemma select_sorted:
  "select qs = Some (x, qs') \<Longrightarrow> \<forall>q\<in>set qs. sorted (map fst q) \<Longrightarrow>
   \<forall>q\<in>set qs'. sorted (map fst q)"
  by (induction qs arbitrary: x qs' rule: select.induct) (auto split: option.splits if_splits)

lemma select_least:
  "select qs = Some (x, qs') \<Longrightarrow> \<forall>q\<in>set qs. sorted (map fst q) \<Longrightarrow>
   \<forall>y\<in>set (concat qs). fst x \<le> fst y"
proof (induction qs arbitrary: x qs' rule: select.induct)
  case 1
  then show ?case by simp
next
  case (2 qs)
  obtain rest where r: "select qs = Some (x, rest)"
    using "2.prems"(1) by (auto split: option.splits)
  have "\<forall>q\<in>set qs. sorted (map fst q)"
    using "2.prems"(2) by simp
  then have "\<forall>y\<in>set (concat qs). fst x \<le> fst y"
    using "2.IH" [OF r] by simp
  then show ?case by simp
next
  case (3 x0 q qs)
  have sq: "\<forall>y\<in>set q. fst x0 \<le> fst y"
    using "3.prems"(2) by auto
  have srest: "\<forall>q\<in>set qs. sorted (map fst q)"
    using "3.prems"(2) by simp
  have split: "set (concat ((x0 # q) # qs)) = insert x0 (set q) \<union> set (concat qs)"
    by simp
  show ?case
  proof (cases "select qs")
    case None
    have e: "set (concat qs) = {}"
      using select_None_concat [OF None] by simp
    have "x = x0" using "3.prems"(1) None by simp
    then show ?thesis unfolding split e using sq by simp
  next
    case (Some r)
    obtain y rest where r: "select qs = Some (y, rest)" using Some by (cases r) simp
    have ih: "\<forall>z\<in>set (concat qs). fst y \<le> fst z"
      using "3.IH" [OF r srest] .
    show ?thesis
    proof (cases "fst y < fst x0")
      case True
      then have "x = y" using "3.prems"(1) r by simp
      then show ?thesis unfolding split using True sq ih by fastforce
    next
      case False
      then have "x = x0" using "3.prems"(1) r by simp
      then show ?thesis unfolding split using False sq ih by fastforce
    qed
  qed
qed

lemma select_filter:
  "select qs = Some (x, qs') \<Longrightarrow> \<forall>q\<in>set qs. sorted (map fst q) \<Longrightarrow>
   filter (\<lambda>y. fst y = k) (concat qs) =
     (if fst x = k then x # filter (\<lambda>y. fst y = k) (concat qs')
      else filter (\<lambda>y. fst y = k) (concat qs'))"
proof (induction qs arbitrary: x qs' rule: select.induct)
  case 1
  then show ?case by simp
next
  case (2 qs)
  obtain rest where r: "select qs = Some (x, rest)" and q': "qs' = [] # rest"
    using "2.prems"(1) by (auto split: option.splits)
  have "\<forall>q\<in>set qs. sorted (map fst q)"
    using "2.prems"(2) by simp
  then show ?case
    using "2.IH" [OF r] q' by simp
next
  case (3 x0 q qs)
  have sq: "\<forall>y\<in>set q. fst x0 \<le> fst y"
    using "3.prems"(2) by auto
  have srest: "\<forall>q\<in>set qs. sorted (map fst q)"
    using "3.prems"(2) by simp
  show ?case
  proof (cases "select qs")
    case None
    then have "x = x0" "qs' = q # qs" using "3.prems"(1) by simp_all
    then show ?thesis by simp
  next
    case (Some r)
    obtain y rest where r: "select qs = Some (y, rest)" using Some by (cases r) simp
    have ih: "filter (\<lambda>z. fst z = k) (concat qs) =
        (if fst y = k then y # filter (\<lambda>z. fst z = k) (concat rest)
         else filter (\<lambda>z. fst z = k) (concat rest))"
      using "3.IH" [OF r srest] .
    show ?thesis
    proof (cases "fst y < fst x0")
      case True
      then have res: "x = y" "qs' = (x0 # q) # rest"
        using "3.prems"(1) r by simp_all
      have split: "filter (\<lambda>z. fst z = k) (concat ((x0 # q) # qs)) =
          filter (\<lambda>z. fst z = k) (x0 # q) @ filter (\<lambda>z. fst z = k) (concat qs)"
        by simp
      have split': "filter (\<lambda>z. fst z = k) (concat qs') =
          filter (\<lambda>z. fst z = k) (x0 # q) @ filter (\<lambda>z. fst z = k) (concat rest)"
        using res by simp
      show ?thesis
      proof (cases "fst y = k")
        case yk: True
        have "\<forall>z\<in>set (x0 # q). fst z \<noteq> k"
          using True sq yk by auto
        then have none: "filter (\<lambda>z. fst z = k) (x0 # q) = []"
          unfolding filter_empty_conv by blast
        have "filter (\<lambda>z. fst z = k) (concat ((x0 # q) # qs)) =
                y # filter (\<lambda>z. fst z = k) (concat rest)"
          unfolding split none using ih yk by simp
        moreover have "filter (\<lambda>z. fst z = k) (concat qs') = filter (\<lambda>z. fst z = k) (concat rest)"
          unfolding split' none by simp
        ultimately show ?thesis using yk res(1) by simp
      next
        case False
        have "filter (\<lambda>z. fst z = k) (concat ((x0 # q) # qs)) =
                filter (\<lambda>z. fst z = k) (concat qs')"
          unfolding split split' using ih False by simp
        then show ?thesis using False res(1) by simp
      qed
    next
      case False
      then have res: "x = x0" "qs' = q # qs"
        using "3.prems"(1) r by simp_all
      show ?thesis using res by simp
    qed
  qed
qed

lemma merge_cursors_None: "select qs = None \<Longrightarrow> merge_cursors qs = []"
  by (subst merge_cursors.simps) simp

lemma merge_cursors_Some:
  "select qs = Some (x, qs') \<Longrightarrow> merge_cursors qs = x # merge_cursors qs'"
  by (subst merge_cursors.simps) simp

lemma merge_cursors_induct:
  assumes "\<And>qs. (\<And>x qs'. select qs = Some (x, qs') \<Longrightarrow> P qs') \<Longrightarrow> P qs"
  shows "P qs"
proof (induction qs rule: merge_cursors.induct)
  case (1 qs)
  show ?case
  proof (rule assms)
    fix x qs'
    assume "select qs = Some (x, qs')"
    then show "P qs'" using "1.IH" [of "(x, qs')" x qs'] by simp
  qed
qed

lemma merge_cursors_mset: "mset (merge_cursors qs) = mset (concat qs)"
proof (induction qs rule: merge_cursors_induct)
  case (1 qs)
  show ?case
  proof (cases "select qs")
    case None
    show ?thesis
      unfolding merge_cursors_None [OF None] select_None_concat [OF None] by simp
  next
    case (Some r)
    obtain x qs' where sel: "select qs = Some (x, qs')" using Some by (cases r) simp
    show ?thesis
      unfolding merge_cursors_Some [OF sel] select_mset [OF sel] using "1" [OF sel] by simp
  qed
qed

lemma merge_cursors_sorted:
  "\<forall>q\<in>set qs. sorted (map fst q) \<Longrightarrow> sorted (map fst (merge_cursors qs))"
proof (induction qs rule: merge_cursors_induct)
  case (1 qs)
  show ?case
  proof (cases "select qs")
    case None
    show ?thesis unfolding merge_cursors_None [OF None] by simp
  next
    case (Some r)
    obtain x qs' where sel: "select qs = Some (x, qs')" using Some by (cases r) simp
    have s': "\<forall>q\<in>set qs'. sorted (map fst q)"
      using select_sorted [OF sel "1.prems"] .
    have ih: "sorted (map fst (merge_cursors qs'))"
      using "1.IH" [OF sel s'] .
    have "\<forall>y\<in>set (concat qs). fst x \<le> fst y"
      using select_least [OF sel "1.prems"] .
    moreover have "set (concat qs) = insert x (set (concat qs'))"
      using arg_cong [OF select_mset [OF sel], of set_mset] by simp
    moreover have "set (merge_cursors qs') = set (concat qs')"
      by (rule mset_eq_setD [OF merge_cursors_mset])
    ultimately have "\<forall>y\<in>set (merge_cursors qs'). fst x \<le> fst y"
      by blast
    then show ?thesis
      unfolding merge_cursors_Some [OF sel] using ih by simp
  qed
qed

lemma merge_cursors_filter:
  "\<forall>q\<in>set qs. sorted (map fst q) \<Longrightarrow>
   filter (\<lambda>y. fst y = k) (merge_cursors qs) = filter (\<lambda>y. fst y = k) (concat qs)"
proof (induction qs rule: merge_cursors_induct)
  case (1 qs)
  show ?case
  proof (cases "select qs")
    case None
    show ?thesis
      unfolding merge_cursors_None [OF None] select_None_concat [OF None] by simp
  next
    case (Some r)
    obtain x qs' where sel: "select qs = Some (x, qs')" using Some by (cases r) simp
    have s': "\<forall>q\<in>set qs'. sorted (map fst q)"
      using select_sorted [OF sel "1.prems"] .
    have ih: "filter (\<lambda>y. fst y = k) (merge_cursors qs') = filter (\<lambda>y. fst y = k) (concat qs')"
      using "1.IH" [OF sel s'] .
    show ?thesis
      unfolding merge_cursors_Some [OF sel] select_filter [OF sel "1.prems", of k]
      using ih by simp
  qed
qed

lemma merge_cursors_sort_key:
  assumes "\<forall>q\<in>set qs. sorted (map fst q)"
  shows "merge_cursors qs = sort_key fst (concat qs)"
proof (rule properties_for_sort_key [symmetric])
  show "mset (merge_cursors qs) = mset (concat qs)"
    by (rule merge_cursors_mset)
  show "sorted (map fst (merge_cursors qs))"
    using assms by (rule merge_cursors_sorted)
  show "filter (\<lambda>x. fst k = fst x) (merge_cursors qs) = filter (\<lambda>x. fst k = fst x) (concat qs)"
    for k :: "int \<times> event"
    using merge_cursors_filter [OF assms, of "fst k"] by (simp add: eq_commute)
qed


lemma positions_event:
  "\<not> is_advance e \<Longrightarrow> positions t (e # es) = (t, e) # positions t es"
  by (cases e) simp_all

lemma positions_props:
  "advances_forward log \<Longrightarrow>
   sorted (map fst (positions c log)) \<and>
   (\<forall>p\<in>set (positions c log). c \<le> fst p \<and> \<not> is_advance (snd p))"
proof (induction log arbitrary: c)
  case Nil
  show ?case by simp
next
  case (Cons e log)
  show ?case
  proof (cases e)
    case (AdvanceProcessingTime d)
    have d: "0 \<le> d" and f: "advances_forward log"
      using Cons.prems AdvanceProcessingTime by simp_all
    have "sorted (map fst (positions (c + d) log)) \<and>
          (\<forall>p\<in>set (positions (c + d) log). c + d \<le> fst p \<and> \<not> is_advance (snd p))"
      using Cons.IH [OF f] .
    then show ?thesis using AdvanceProcessingTime d by fastforce
  next
    case (AddElements tvs t)
    have f: "advances_forward log" using Cons.prems AddElements by simp
    show ?thesis using Cons.IH [OF f, of c] AddElements by simp
  next
    case (AdvanceWatermark w t)
    have f: "advances_forward log" using Cons.prems AdvanceWatermark by simp
    show ?thesis using Cons.IH [OF f, of c] AdvanceWatermark by simp
  qed
qed

lemma positions_emit:
  "sorted (map fst m) \<Longrightarrow> \<forall>p\<in>set m. c \<le> fst p \<and> \<not> is_advance (snd p) \<Longrightarrow>
   positions c (emit c m) = m"
proof (induction m arbitrary: c)
  case Nil
  show ?case by simp
next
  case (Cons p m)
  obtain t e where p: "p = (t, e)" by (cases p)
  have e: "\<not> is_advance e" and ct: "c \<le> t"
    using Cons.prems(2) p by simp_all
  have sm: "sorted (map fst m)"
    using Cons.prems(1) by simp
  have above: "\<forall>q\<in>set m. t \<le> fst q \<and> \<not> is_advance (snd q)"
    using Cons.prems p by auto
  have ih: "positions t (emit t m) = m"
    using Cons.IH [OF sm above] .
  show ?case
  proof (cases "c < t")
    case True
    then have "emit c (p # m) = AdvanceProcessingTime (t - c) # e # emit t m"
      using p by simp
    then show ?thesis using ih p positions_event [OF e] by simp
  next
    case False
    then have "c = t" using ct by simp
    then have "emit c (p # m) = e # emit t m"
      using p by simp
    then show ?thesis using ih p \<open>c = t\<close> positions_event [OF e] by simp
  qed
qed

lemma emit_advance:
  "\<forall>p\<in>set m. \<not> is_advance (snd p) \<Longrightarrow>
   emit c m = pre @ AdvanceProcessingTime d # post \<Longrightarrow>
   0 < d \<and> (\<exists>e rest. post = e # rest \<and> \<not> is_advance e)"
proof (induction m arbitrary: c pre)
  case Nil
  then show ?case by simp
next
  case (Cons p m)
  obtain t e where p: "p = (t, e)" by (cases p)
  have e: "\<not> is_advance e" using Cons.prems(1) p by simp
  have rest: "\<forall>q\<in>set m. \<not> is_advance (snd q)" using Cons.prems(1) by simp
  have tail: "0 < d \<and> (\<exists>e rest. post = e # rest \<and> \<not> is_advance e)"
    if "e # emit c' m = pre' @ AdvanceProcessingTime d # post" for c' pre'
  proof (cases pre')
    case Nil
    then have "e = AdvanceProcessingTime d" using that by simp
    then show ?thesis using e by simp
  next
    case (Cons a pre'')
    then have "emit c' m = pre'' @ AdvanceProcessingTime d # post" using that by simp
    then show ?thesis using Cons.IH [OF rest] by blast
  qed
  show ?case
  proof (cases "c < t")
    case True
    then have em: "AdvanceProcessingTime (t - c) # e # emit t m = pre @ AdvanceProcessingTime d # post"
      using Cons.prems(2) p by simp
    show ?thesis
    proof (cases pre)
      case Nil
      then have "d = t - c" and "post = e # emit t m" using em by simp_all
      then show ?thesis using True e by simp
    next
      case (Cons a pre')
      then have "e # emit t m = pre' @ AdvanceProcessingTime d # post" using em by simp
      then show ?thesis by (rule tail)
    qed
  next
    case False
    then have "e # emit c m = pre @ AdvanceProcessingTime d # post"
      using Cons.prems(2) p by simp
    then show ?thesis by (rule tail)
  qed
qed

lemma cursors_of_groups:
  assumes "\<forall>g\<in>set groups. advances_forward (open_cursor st g)"
  shows "\<forall>q\<in>set (map (\<lambda>g. positions 0 (open_cursor st g)) groups).
           sorted (map fst q) \<and> (\<forall>p\<in>set q. 0 \<le> fst p \<and> \<not> is_advance (snd p))"
  using assms positions_props by auto

lemma read_multiple_positions:
  assumes "\<forall>g\<in>set groups. advances_forward (open_cursor st g)"
  shows "positions 0 (read_multiple st groups) =
           merge_cursors (map (\<lambda>g. positions 0 (open_cursor st g)) groups)"
proof -
  let ?qs = "map (\<lambda>g. positions 0 (open_cursor st g)) groups"
  have qs: "\<forall>q\<in>set ?qs. sorted (map fst q) \<and> (\<forall>p\<in>set q. 0 \<le> fst p \<and> \<not> is_advance (snd p))"
    using cursors_of_groups [OF assms] .
  then have s: "sorted (map fst (merge_cursors ?qs))"
    by (simp add: merge_cursors_sorted)
  have "set (merge_cursors ?qs) = set (concat ?qs)"
    by (rule mset_eq_setD [OF merge_cursors_mset])
  then have "\<forall>p\<in>set (merge_cursors ?qs). 0 \<le> fst p \<and> \<not> is_advance (snd p)"
    using qs by auto
  then show ?thesis
    unfolding read_multiple_def by (rule positions_emit [OF s])
qed

lemma read_multiple_advance:
  assumes "read_multiple st groups = pre @ AdvanceProcessingTime d # post"
  shows "0 < d \<and> (\<exists>e rest. post = e # rest \<and> \<not> is_advance e)"
proof -
  let ?qs = "map (\<lambda>g. positions 0 (open_cursor st g)) groups"
  have np: "\<forall>p\<in>set (positions c log). \<not> is_advance (snd p)" for c log
    by (induction c log rule: positions.induct) simp_all
  have "set (merge_cursors ?qs) = set (concat ?qs)"
    by (rule mset_eq_setD [OF merge_cursors_mset])
  then have "\<forall>p\<in>set (merge_cursors ?qs). \<not> is_advance (snd p)"
    using np by auto
  then show ?thesis
    using assms unfolding read_multiple_def by (rule emit_advance)
qed

text \<open>
  C1. Let every log read advance its processing time forwards (section 3). Replaying
  the stream \<open>read_multiple\<close> emits against a clock started at 0 delivers the recorded
  events (\<open>positions 0\<close> of the output) exactly as the stable sort, by recorded
  processing-time position, of the events of the groups taken in the order the groups
  were listed: every recorded event once, at the clock value that is its recorded
  position, in non-decreasing position, the smallest position first, and events of equal
  position in the order of their groups (and, within a group, of the log). Every
  AdvanceProcessingTime emitted has a positive duration and is followed at once by an
  element or watermark event, so the clock is moved by one advance, never by two in a
  row, and only in front of an event that needs it.
\<close>

theorem read_multiple_merges_by_processing_time:
  assumes "\<forall>g\<in>set groups. advances_forward (open_cursor st g)"
  shows "positions 0 (read_multiple st groups) =
           sort_key fst (concat (map (\<lambda>g. positions 0 (open_cursor st g)) groups)) \<and>
         sorted (map fst (positions 0 (read_multiple st groups))) \<and>
         (\<forall>k. filter (\<lambda>p. fst p = k) (positions 0 (read_multiple st groups)) =
               concat (map (\<lambda>g. filter (\<lambda>p. fst p = k) (positions 0 (open_cursor st g))) groups)) \<and>
         (\<forall>pre d post. read_multiple st groups = pre @ AdvanceProcessingTime d # post \<longrightarrow>
            0 < d \<and> (\<exists>e rest. post = e # rest \<and> \<not> is_advance e))"
proof -
  let ?qs = "map (\<lambda>g. positions 0 (open_cursor st g)) groups"
  have qs: "\<forall>q\<in>set ?qs. sorted (map fst q)"
    using cursors_of_groups [OF assms] by blast
  have p: "positions 0 (read_multiple st groups) = merge_cursors ?qs"
    using read_multiple_positions [OF assms] .
  have a: "positions 0 (read_multiple st groups) = sort_key fst (concat ?qs)"
    unfolding p by (rule merge_cursors_sort_key [OF qs])
  have b: "sorted (map fst (positions 0 (read_multiple st groups)))"
    unfolding p by (rule merge_cursors_sorted [OF qs])
  have c: "filter (\<lambda>p. fst p = k) (positions 0 (read_multiple st groups)) =
             concat (map (\<lambda>g. filter (\<lambda>p. fst p = k) (positions 0 (open_cursor st g))) groups)" for k
    unfolding p merge_cursors_filter [OF qs] by (simp add: filter_concat comp_def)
  have d: "0 < d \<and> (\<exists>e rest. post = e # rest \<and> \<not> is_advance e)"
    if "read_multiple st groups = pre @ AdvanceProcessingTime d # post" for pre d post
    using that by (rule read_multiple_advance)
  show ?thesis using a b c d by blast
qed

text \<open>The reader on the logs of \<open>test_multiple_readers\<close> gives the events the test expects.\<close>

lemma read_multiple_test_multiple_readers:
  "read_multiple test_storage test_groups = test_expected"
  by (simp add: read_multiple_def test_storage_def test_groups_def test_expected_def
      open_cursor_def letters_log_def numbers_log_def late_log_def merge_cursors.simps)

theorem read_multiple_merges_by_processing_time_witness:
  "list_all (\<lambda>g. advances_forward (open_cursor test_storage g)) test_groups \<and>
   sorted (map fst (positions 0 (read_multiple test_storage test_groups))) \<and>
   read_multiple test_storage test_groups = [] @ AdvanceProcessingTime 1000000 # tl test_expected \<and>
   (\<exists>e rest. tl test_expected = e # rest \<and> \<not> is_advance e)"
proof -
  have h: "\<forall>g\<in>set test_groups. advances_forward (open_cursor test_storage g)"
    by (simp add: test_groups_def test_storage_def open_cursor_def letters_log_def
        numbers_log_def late_log_def)
  note T = read_multiple_merges_by_processing_time [OF h]
  have a: "sorted (map fst (positions 0 (read_multiple test_storage test_groups)))"
    using T by blast
  have b: "read_multiple test_storage test_groups =
             [] @ AdvanceProcessingTime 1000000 # tl test_expected"
    unfolding read_multiple_test_multiple_readers by (simp add: test_expected_def)
  have c: "\<exists>e rest. tl test_expected = e # rest \<and> \<not> is_advance e"
    using T b by blast
  show ?thesis using h a b c unfolding list_all_iff by blast
qed

section \<open>Sinking and reading back\<close>

lemma capture_sequence_batches:
  "live_batches 0 Map.empty capture_sequence =
     [\<lparr> batch_tag = ''records'',
        batch_elements = [TimestampedElement ''a'' 0, TimestampedElement ''b'' 0,
                          TimestampedElement ''c'' 0],
        batch_processing_time = 5000000,
        batch_watermark = Some 0 \<rparr>,
      \<lparr> batch_tag = ''records'',
        batch_elements = [TimestampedElement ''1'' 15000000, TimestampedElement ''2'' 15000000,
                          TimestampedElement ''3'' 15000000],
        batch_processing_time = 6000000,
        batch_watermark = Some 10000000 \<rparr>]"
  by (simp add: capture_sequence_def micros_def)

lemma capture_sequence_log:
  "open_cursor (sink [''records''] Map.empty (live_batches 0 Map.empty capture_sequence)) [''records''] =
     [AdvanceProcessingTime 5000000,
      AdvanceWatermark 0 ''records'',
      AddElements [TimestampedElement ''a'' 0, TimestampedElement ''b'' 0,
                   TimestampedElement ''c'' 0] ''records'',
      AdvanceProcessingTime 1000000,
      AdvanceWatermark 10000000 ''records'',
      AddElements [TimestampedElement ''1'' 15000000, TimestampedElement ''2'' 15000000,
                   TimestampedElement ''3'' 15000000] ''records'']"
  unfolding capture_sequence_batches
  by (simp add: sink_def sink_batch_def append_log_def open_cursor_def Let_def)

text \<open>
  C2. Sinking the capture sequence (watermark to 0, processing time advanced by 5
  seconds, elements a, b, c at event time 0, watermark to 10, processing time advanced
  by 1 second, elements 1, 2, 3 at event time 15) for the tag \<open>records\<close> into an empty
  cache and reading the tag back yields exactly six events, in this order and in
  microseconds: AdvanceProcessingTime 5000000, AdvanceWatermark 0, AddElements of a, b, c
  at 0, AdvanceProcessingTime 1000000, AdvanceWatermark 10000000, AddElements of 1, 2, 3
  at 15000000.
\<close>

theorem sink_then_read_records:
  "read (sink [''records''] Map.empty (live_batches 0 Map.empty capture_sequence)) ''records'' =
     [AdvanceProcessingTime 5000000,
      AdvanceWatermark 0 ''records'',
      AddElements [TimestampedElement ''a'' 0, TimestampedElement ''b'' 0,
                   TimestampedElement ''c'' 0] ''records'',
      AdvanceProcessingTime 1000000,
      AdvanceWatermark 10000000 ''records'',
      AddElements [TimestampedElement ''1'' 15000000, TimestampedElement ''2'' 15000000,
                   TimestampedElement ''3'' 15000000] ''records'']"
  unfolding read_def read_multiple_def
  by (simp add: capture_sequence_log merge_cursors.simps)

end
